theory Spec2Isabelle
  imports Complex_Main "HOL-Library.AList" "HOL-Library.Multiset" "HOL-Library.Option_ord"
begin

section \<open>The document store\<close>

text \<open>
  The service keeps all of its state in four collections of a document database
  (\<open>device\<close>, \<open>sensorreading\<close>, \<open>thresholds\<close>, \<open>devicecommand\<close>). A document is an
  ordered list of named fields; a field that is present with the value null
  (\<open>VNull\<close>) is different from a field that is absent. A Python \<open>float\<close> is the
  real number it stands for, and arithmetic on floats rounds (see \<open>fmul\<close>); a
  \<open>datetime\<close> is an integer number of clock ticks.
\<close>

datatype val =
    VNull
  | VBool bool
  | VInt int
  | VNum real
  | VStr string
  | VTime int
  | VOid nat
  | VOidStr nat
  | VIso int

type_synonym fields = "(string \<times> val) list"

text \<open>A stored document: its \<open>_id\<close> and the fields it was written with.\<close>

type_synonym stored = "nat \<times> fields"

type_synonym collection = "stored list"

record db =
  colls :: "string \<Rightarrow> collection"
  next_oid :: nat

definition empty_db :: db where
  "empty_db = \<lparr>colls = (\<lambda>_. []), next_oid = 0\<rparr>"

text \<open>Reading a field of a stored document; \<open>_id\<close> is a field like the others.\<close>

definition lookup :: "stored \<Rightarrow> string \<Rightarrow> val option" where
  "lookup d k = (if k = ''_id'' then Some (VOid (fst d)) else map_of (snd d) k)"

text \<open>
  The two filter conditions main.py uses: equality with a value, and
  \<open>{"$exists": b}\<close>. Equality with null also matches a document without the
  field; \<open>$exists\<close> looks at the presence of the field only, so a field stored as
  null exists.
\<close>

datatype cond = Eq val | Exists bool

type_synonym query = "(string \<times> cond) list"

fun holds :: "stored \<Rightarrow> string \<times> cond \<Rightarrow> bool" where
  "holds d (k, Eq v) = (case lookup d k of None \<Rightarrow> v = VNull | Some w \<Rightarrow> w = v)"
| "holds d (k, Exists b) = ((lookup d k \<noteq> None) = b)"

definition matches :: "query \<Rightarrow> stored \<Rightarrow> bool" where
  "matches q d = list_all (holds d) q"

text \<open>\<open>find\<close> returns the matching documents in the collection's own order.\<close>

definition find :: "collection \<Rightarrow> query \<Rightarrow> collection" where
  "find c q = filter (matches q) c"

definition find_one :: "collection \<Rightarrow> query \<Rightarrow> stored option" where
  "find_one c q = (case find c q of [] \<Rightarrow> None | d # _ \<Rightarrow> Some d)"

text \<open>
  Sorting by a datetime field. Values that are not datetimes (null, numbers,
  strings, booleans) and absent fields come before every datetime; the order
  among them is not modelled. Documents with equal keys keep the collection's
  order.
\<close>

definition sort_val :: "string \<Rightarrow> stored \<Rightarrow> int option" where
  "sort_val k d = (case lookup d k of Some (VTime t) \<Rightarrow> Some t | _ \<Rightarrow> None)"

definition sort_asc :: "string \<Rightarrow> collection \<Rightarrow> collection" where
  "sort_asc k c = sort_key (sort_val k) c"

definition sort_desc :: "string \<Rightarrow> collection \<Rightarrow> collection" where
  "sort_desc k c = rev (sort_key (sort_val k) (rev c))"

text \<open>\<open>find_one(q, sort=[(k, 1)])\<close>: the first matching document in ascending order of \<open>k\<close>.\<close>

definition find_one_sort :: "collection \<Rightarrow> query \<Rightarrow> string \<Rightarrow> stored option" where
  "find_one_sort c q k = (case sort_asc k (find c q) of [] \<Rightarrow> None | d # _ \<Rightarrow> Some d)"

text \<open>\<open>limit(n)\<close>: 0 means no limit, a negative number limits to its absolute value.\<close>

definition limit :: "int \<Rightarrow> collection \<Rightarrow> collection" where
  "limit n c = (if n = 0 then c else take (nat \<bar>n\<bar>) c)"

text \<open>\<open>delete_one\<close> removes the first matching document, if there is one.\<close>

definition delete_one :: "collection \<Rightarrow> query \<Rightarrow> collection" where
  "delete_one c q = (case find_one c q of None \<Rightarrow> c | Some d \<Rightarrow> remove1 d c)"

text \<open>\<open>{"$set": u}\<close> overwrites the fields of \<open>u\<close> in place and appends the new ones.\<close>

definition set_fields :: "fields \<Rightarrow> fields \<Rightarrow> fields" where
  "set_fields u body = fold (\<lambda>(k, v). AList.update k v) u body"

fun update_first :: "query \<Rightarrow> fields \<Rightarrow> collection \<Rightarrow> collection" where
  "update_first q u [] = []"
| "update_first q u (d # ds) =
     (if matches q d then (fst d, set_fields u (snd d)) # ds else d # update_first q u ds)"

text \<open>The equality clauses of a filter: the fields an upsert starts its new document with.\<close>

fun eq_fields :: "query \<Rightarrow> fields" where
  "eq_fields [] = []"
| "eq_fields ((k, Eq v) # q) = (k, v) # eq_fields q"
| "eq_fields ((k, Exists b) # q) = eq_fields q"

text \<open>
  \<open>db[name].update_one(q, {"$set": u}, upsert=...)\<close>: the first matching document
  is updated; when none matches and \<open>upsert\<close> is set, a new document is inserted,
  built from the filter's equality clauses and \<open>u\<close>.
\<close>

definition update_one :: "string \<Rightarrow> query \<Rightarrow> fields \<Rightarrow> bool \<Rightarrow> db \<Rightarrow> db" where
  "update_one name q u upsert s =
     (let c = colls s name in
      if find c q \<noteq> [] then s\<lparr>colls := (colls s)(name := update_first q u c)\<rparr>
      else if upsert then
        s\<lparr>colls := (colls s)(name := c @ [(next_oid s, set_fields u (eq_fields q))]),
          next_oid := Suc (next_oid s)\<rparr>
      else s)"

definition insert_one :: "string \<Rightarrow> fields \<Rightarrow> db \<Rightarrow> nat \<times> db" where
  "insert_one name doc s =
     (next_oid s,
      s\<lparr>colls := (colls s)(name := colls s name @ [(next_oid s, doc)]),
        next_oid := Suc (next_oid s)\<rparr>)"

text \<open>
  Modelled from the spec: \<open>create_document\<close> of the database module, which is not
  part of the sources at hand. The spec describes the store's insert as appending
  the document to the named collection and returning the identifier of the new
  document.
\<close>

definition create_document :: "string \<Rightarrow> fields \<Rightarrow> db \<Rightarrow> nat \<times> db" where
  "create_document name doc s = insert_one name doc s"

text \<open>Every stored document of a collection has its own \<open>_id\<close>, below the next one to be issued.\<close>

definition ids_ok :: "db \<Rightarrow> string \<Rightarrow> bool" where
  "ids_ok s name =
     (distinct (map fst (colls s name)) \<and> list_all (\<lambda>d. fst d < next_oid s) (colls s name))"

section \<open>The command queue\<close>

datatype mode = auto | manual

record DeviceCommand =
  cmd_device_id :: string
  cmd_power :: "bool option"
  cmd_mode :: "mode option"
  cmd_fan_speed :: "int option"

fun mode_val :: "mode \<Rightarrow> val" where
  "mode_val auto = VStr ''auto''"
| "mode_val manual = VStr ''manual''"

definition opt_val :: "('a \<Rightarrow> val) \<Rightarrow> 'a option \<Rightarrow> val" where
  "opt_val f x = (case x of None \<Rightarrow> VNull | Some y \<Rightarrow> f y)"

definition DeviceCommand_dump :: "DeviceCommand \<Rightarrow> fields" where
  "DeviceCommand_dump c =
     [(''device_id'', VStr (cmd_device_id c)),
      (''power'', opt_val VBool (cmd_power c)),
      (''mode'', opt_val mode_val (cmd_mode c)),
      (''fan_speed'', opt_val VInt (cmd_fan_speed c))]"

text \<open>\<open>model_dump(exclude_none=True)\<close> leaves out the fields whose value is None.\<close>

definition exclude_none :: "fields \<Rightarrow> fields" where
  "exclude_none d = filter (\<lambda>kv. snd kv \<noteq> VNull) d"

text \<open>
  \<open>push_command\<close>; \<open>now\<close> is the reading of the wall clock taken by
  \<open>datetime.now(timezone.utc)\<close>. The response is the status and the new identifier.
\<close>

definition cmd_doc :: "DeviceCommand \<Rightarrow> int \<Rightarrow> fields" where
  "cmd_doc c now = AList.update ''created_at'' (VTime now) (exclude_none (DeviceCommand_dump c))"

definition push_command :: "DeviceCommand \<Rightarrow> int \<Rightarrow> db \<Rightarrow> (string \<times> nat) \<times> db" where
  "push_command c now s =
     (case create_document ''devicecommand'' (cmd_doc c now) s of
        (inserted_id, s') \<Rightarrow> ((''queued'', inserted_id), s'))"

text \<open>
  \<open>next_command\<close> is a lookup followed by a delete. The two store calls are kept
  as two steps, \<open>next_find\<close> (line 137) and \<open>next_finish\<close> (lines 138 to 142), so that
  runs in which the steps of two requests alternate can be written down. The
  result \<open>None\<close> is the response \<open>{"command": None}\<close>; \<open>Some doc\<close> is
  \<open>{"command": doc}\<close> with the \<open>_id\<close> turned into its string form.
\<close>

definition next_find :: "string \<Rightarrow> db \<Rightarrow> stored option" where
  "next_find dev s =
     find_one_sort (colls s ''devicecommand'') [(''device_id'', Eq (VStr dev))] ''created_at''"

definition returned_doc :: "stored \<Rightarrow> fields" where
  "returned_doc d = (''_id'', VOidStr (fst d)) # snd d"

definition next_finish :: "stored option \<Rightarrow> db \<Rightarrow> fields option \<times> db" where
  "next_finish r s =
     (case r of
        None \<Rightarrow> (None, s)
      | Some d \<Rightarrow>
          (Some (returned_doc d),
           s\<lparr>colls := (colls s)(''devicecommand'' :=
                delete_one (colls s ''devicecommand'') [(''_id'', Eq (VOid (fst d)))])\<rparr>))"

definition next_command :: "string \<Rightarrow> db \<Rightarrow> fields option \<times> db" where
  "next_command dev s = next_finish (next_find dev s) s"

text \<open>The queue of a device: its stored commands, in the collection's order.\<close>

definition pending :: "string \<Rightarrow> db \<Rightarrow> collection" where
  "pending dev s = find (colls s ''devicecommand'') [(''device_id'', Eq (VStr dev))]"

text \<open>The documents a poll hands to its caller: none or one.\<close>

definition delivered :: "fields option \<Rightarrow> fields list" where
  "delivered r = (case r of None \<Rightarrow> [] | Some d \<Rightarrow> [d])"

text \<open>
  Two polls of one device whose store calls alternate: both lookups run before
  either delete. \<open>seq_two_polls\<close> is the run in which the second request starts
  after the first has finished.
\<close>

definition race_two_polls :: "string \<Rightarrow> db \<Rightarrow> (fields option \<times> fields option) \<times> db" where
  "race_two_polls dev s =
     (let a = next_find dev s;
          b = next_find dev s;
          (ra, s1) = next_finish a s;
          (rb, s2) = next_finish b s1
      in ((ra, rb), s2))"

text \<open>The same race with the two deletes in the other order.\<close>

definition race_two_polls_swapped :: "string \<Rightarrow> db \<Rightarrow> (fields option \<times> fields option) \<times> db" where
  "race_two_polls_swapped dev s =
     (let a = next_find dev s;
          b = next_find dev s;
          (rb, s1) = next_finish b s;
          (ra, s2) = next_finish a s1
      in ((ra, rb), s2))"

definition seq_two_polls :: "string \<Rightarrow> db \<Rightarrow> (fields option \<times> fields option) \<times> db" where
  "seq_two_polls dev s =
     (let (ra, s1) = next_command dev s;
          (rb, s2) = next_command dev s1
      in ((ra, rb), s2))"

text \<open>
  A sequential run of requests against the queue: \<open>Enq c now\<close> is a
  \<open>push_command\<close> whose clock reading is \<open>now\<close>, \<open>Deq\<close> is a \<open>next_command\<close> for
  the device. \<open>run\<close> collects the results of the polls.
\<close>

datatype request = Enq DeviceCommand int | Deq

fun run :: "string \<Rightarrow> request list \<Rightarrow> db \<Rightarrow> fields option list \<times> db" where
  "run dev [] s = ([], s)"
| "run dev (Enq c now # rs) s = run dev rs (snd (push_command c now s))"
| "run dev (Deq # rs) s =
     (case next_command dev s of
        (r, s') \<Rightarrow> (case run dev rs s' of (out, s'') \<Rightarrow> (r # out, s'')))"

text \<open>
  The first-in first-out queue the polls are compared with: it holds the command
  documents in the order of the enqueues.
\<close>

fun fifo :: "request list \<Rightarrow> fields list \<Rightarrow> fields option list" where
  "fifo [] q = []"
| "fifo (Enq c now # rs) q = fifo rs (q @ [cmd_doc c now])"
| "fifo (Deq # rs) [] = None # fifo rs []"
| "fifo (Deq # rs) (x # q) = Some x # fifo rs q"

fun enq_devices :: "request list \<Rightarrow> string list" where
  "enq_devices [] = []"
| "enq_devices (Enq c now # rs) = cmd_device_id c # enq_devices rs"
| "enq_devices (Deq # rs) = enq_devices rs"

fun enq_times :: "request list \<Rightarrow> int list" where
  "enq_times [] = []"
| "enq_times (Enq c now # rs) = now # enq_times rs"
| "enq_times (Deq # rs) = enq_times rs"

text \<open>The body of a poll's response without its \<open>_id\<close>, and the \<open>_id\<close> alone.\<close>

definition body_of :: "fields option \<Rightarrow> fields option" where
  "body_of r = map_option tl r"

fun ids_of :: "fields option list \<Rightarrow> val list" where
  "ids_of [] = []"
| "ids_of (None # rs) = ids_of rs"
| "ids_of (Some d # rs) = (case d of [] \<Rightarrow> ids_of rs | kv # _ \<Rightarrow> snd kv # ids_of rs)"

subsection \<open>Validation of the request body\<close>

text \<open>
  The body of \<open>POST /api/commands\<close> before validation: \<open>None\<close> is a key that is
  missing or null. \<open>validate_DeviceCommand\<close> applies the constraints of the
  \<open>DeviceCommand\<close> schema: \<open>device_id\<close> is a required string, \<open>mode\<close> one of the two
  literals, \<open>fan_speed\<close> between 0 and 5.
\<close>

record RawCommand =
  raw_device_id :: "string option"
  raw_power :: "bool option"
  raw_mode :: "string option"
  raw_fan_speed :: "int option"

datatype error = ValidationError string

definition parse_mode :: "string option \<Rightarrow> error + mode option" where
  "parse_mode m =
     (case m of
        None \<Rightarrow> Inr None
      | Some x \<Rightarrow>
          if x = ''auto'' then Inr (Some auto)
          else if x = ''manual'' then Inr (Some manual)
          else Inl (ValidationError ''mode''))"

definition validate_DeviceCommand :: "RawCommand \<Rightarrow> error + DeviceCommand" where
  "validate_DeviceCommand r =
     (case raw_device_id r of
        None \<Rightarrow> Inl (ValidationError ''device_id'')
      | Some dev \<Rightarrow>
          (case parse_mode (raw_mode r) of
             Inl e \<Rightarrow> Inl e
           | Inr m \<Rightarrow>
               (case raw_fan_speed r of
                  None \<Rightarrow>
                    Inr \<lparr>cmd_device_id = dev, cmd_power = raw_power r, cmd_mode = m,
                         cmd_fan_speed = None\<rparr>
                | Some n \<Rightarrow>
                    if 0 \<le> n \<and> n \<le> 5 then
                      Inr \<lparr>cmd_device_id = dev, cmd_power = raw_power r, cmd_mode = m,
                           cmd_fan_speed = Some n\<rparr>
                    else Inl (ValidationError ''fan_speed''))))"

text \<open>The endpoint: a body that fails validation is answered with the error, before \<open>push_command\<close> runs.\<close>

definition post_commands :: "RawCommand \<Rightarrow> int \<Rightarrow> db \<Rightarrow> (error + string \<times> nat) \<times> db" where
  "post_commands r now s =
     (case validate_DeviceCommand r of
        Inl e \<Rightarrow> (Inl e, s)
      | Inr c \<Rightarrow> (case push_command c now s of (resp, s') \<Rightarrow> (Inr resp, s')))"

section \<open>Ingestion and the device registry\<close>

record Device =
  dv_device_id :: string
  dv_name :: "string option"
  dv_location :: "string option"
  dv_power :: bool
  dv_mode :: mode
  dv_fan_speed :: int
  dv_last_seen :: "int option"

text \<open>\<open>Device(device_id=dev)\<close>: every other field takes the default of the schema.\<close>

definition new_Device :: "string \<Rightarrow> Device" where
  "new_Device dev =
     \<lparr>dv_device_id = dev, dv_name = None, dv_location = None, dv_power = True,
      dv_mode = auto, dv_fan_speed = 1, dv_last_seen = None\<rparr>"

definition Device_dump :: "Device \<Rightarrow> fields" where
  "Device_dump d =
     [(''device_id'', VStr (dv_device_id d)),
      (''name'', opt_val VStr (dv_name d)),
      (''location'', opt_val VStr (dv_location d)),
      (''power'', VBool (dv_power d)),
      (''mode'', mode_val (dv_mode d)),
      (''fan_speed'', VInt (dv_fan_speed d)),
      (''last_seen'', opt_val VTime (dv_last_seen d))]"

record SensorReading =
  sr_device_id :: string
  sr_pm2_5 :: real
  sr_pm10 :: real
  sr_co2 :: "real option"
  sr_tvoc :: "real option"
  sr_temperature :: "real option"
  sr_humidity :: "real option"
  sr_aqi :: "int option"
  sr_timestamp :: "int option"

definition SensorReading_dump :: "SensorReading \<Rightarrow> fields" where
  "SensorReading_dump r =
     [(''device_id'', VStr (sr_device_id r)),
      (''pm2_5'', VNum (sr_pm2_5 r)),
      (''pm10'', VNum (sr_pm10 r)),
      (''co2'', opt_val VNum (sr_co2 r)),
      (''tvoc'', opt_val VNum (sr_tvoc r)),
      (''temperature'', opt_val VNum (sr_temperature r)),
      (''humidity'', opt_val VNum (sr_humidity r)),
      (''aqi'', opt_val VInt (sr_aqi r)),
      (''timestamp'', opt_val VTime (sr_timestamp r))]"

text \<open>
  Float arithmetic. A Python \<open>float\<close> is a double: 53 significant bits. The
  product of two floats is the exact product rounded to the nearest double, ties
  to the even significand. \<open>fl\<close> is that rounding; the bounds of the exponent
  (overflow to infinity, subnormal numbers) and the values infinity and NaN are
  not modelled.
\<close>

definition round_even :: "real \<Rightarrow> int" where
  "round_even x =
     (let f = \<lfloor>x\<rfloor>; r = x - of_int f
      in if r < 1 / 2 then f else if 1 / 2 < r then f + 1 else if even f then f else f + 1)"

definition pow2 :: "int \<Rightarrow> real" where
  "pow2 e = (if 0 \<le> e then 2 ^ nat e else 1 / 2 ^ nat (- e))"

definition fl :: "real \<Rightarrow> real" where
  "fl x =
     (if x = 0 then 0
      else let e = \<lfloor>log 2 \<bar>x\<bar>\<rfloor> - 52
           in of_int (round_even (x / pow2 e)) * pow2 e)"

definition fmul :: "real \<Rightarrow> real \<Rightarrow> real" where
  "fmul x y = fl (x * y)"

text \<open>Python's \<open>int(x)\<close> on a float drops the fractional part, towards zero.\<close>

definition py_int :: "real \<Rightarrow> int" where
  "py_int x = (if 0 \<le> x then \<lfloor>x\<rfloor> else \<lceil>x\<rceil>)"

text \<open>\<open>x or 0\<close> on an optional float.\<close>

definition or0 :: "real option \<Rightarrow> real" where
  "or0 x = (case x of None \<Rightarrow> 0 | Some y \<Rightarrow> y)"

definition compute_aqi :: "real option \<Rightarrow> real option \<Rightarrow> int option" where
  "compute_aqi pm25 pm10 =
     (if pm25 = None \<and> pm10 = None then None
      else
        let aqi_pm25 = min (max (fmul (or0 pm25) 5) 0) 500;
            aqi_pm10 = min (max (fmul (or0 pm10) 2) 0) 500
        in Some (py_int (max aqi_pm25 aqi_pm10)))"

text \<open>\<open>data.get(k)\<close> and its reading as an optional float; \<open>is None\<close> holds of a missing key and of null.\<close>

definition get :: "fields \<Rightarrow> string \<Rightarrow> val" where
  "get d k = (case map_of d k of None \<Rightarrow> VNull | Some v \<Rightarrow> v)"

definition float_of :: "val \<Rightarrow> real option" where
  "float_of v = (case v of VNum x \<Rightarrow> Some x | VInt n \<Rightarrow> Some (of_int n) | _ \<Rightarrow> None)"

text \<open>
  The first half of \<open>ingest_reading\<close> (lines 71 to 75): the dictionary that will
  be stored. \<open>now\<close> is the clock reading used when the payload has no timestamp.
\<close>

definition reading_data :: "SensorReading \<Rightarrow> int \<Rightarrow> fields" where
  "reading_data payload now =
     (let data = SensorReading_dump payload;
          data = (if get data ''timestamp'' = VNull
                  then AList.update ''timestamp'' (VTime now) data else data);
          data = (if get data ''aqi'' = VNull
                  then AList.update ''aqi''
                         (opt_val VInt (compute_aqi (float_of (get data ''pm2_5''))
                                                    (float_of (get data ''pm10'')))) data
                  else data)
      in data)"

text \<open>
  The heartbeat (lines 77 to 83); \<open>now\<close> is the clock reading for \<open>last_seen\<close>.
  The store is taken to be available.
\<close>

definition heartbeat :: "string \<Rightarrow> int \<Rightarrow> db \<Rightarrow> db" where
  "heartbeat dev now s =
     (let device_filter = [(''device_id'', Eq (VStr dev))];
          existing = find (colls s ''device'') device_filter
      in if existing \<noteq> []
         then update_one ''device'' device_filter [(''last_seen'', VTime now)] False s
         else snd (create_document ''device'' (Device_dump (new_Device dev)) s))"

definition ingest_reading :: "SensorReading \<Rightarrow> int \<Rightarrow> int \<Rightarrow> db \<Rightarrow> (string \<times> nat) \<times> db" where
  "ingest_reading payload now_ts now_seen s =
     (let data = reading_data payload now_ts;
          s1 = heartbeat (sr_device_id payload) now_seen s
      in case create_document ''sensorreading'' data s1 of
           (inserted_id, s2) \<Rightarrow> ((''ok'', inserted_id), s2))"

section \<open>Readings for the dashboard\<close>

text \<open>A query parameter is used as a filter only when it is truthy: given and not the empty string.\<close>

definition truthy :: "string option \<Rightarrow> bool" where
  "truthy x = (case x of None \<Rightarrow> False | Some v \<Rightarrow> v \<noteq> [])"

definition str_val :: "string option \<Rightarrow> val" where
  "str_val x = opt_val VStr x"

definition latest_query :: "string option \<Rightarrow> query" where
  "latest_query device_id = (if truthy device_id then [(''device_id'', Eq (str_val device_id))] else [])"

fun isoformat :: "val \<Rightarrow> val" where
  "isoformat (VTime t) = VIso t"
| "isoformat v = v"

definition render :: "stored \<Rightarrow> fields" where
  "render d = (''_id'', VOidStr (fst d)) # map (\<lambda>kv. (fst kv, isoformat (snd kv))) (snd d)"

definition get_latest_readings :: "string option \<Rightarrow> int \<Rightarrow> db \<Rightarrow> fields list" where
  "get_latest_readings device_id n s =
     map render
       (limit n (sort_desc ''timestamp'' (find (colls s ''sensorreading'') (latest_query device_id))))"

section \<open>Thresholds\<close>

record Thresholds =
  th_device_id :: "string option"
  pm2_5_good :: real
  pm2_5_moderate :: real
  pm10_good :: real
  co2_max :: real
  tvoc_max :: real

text \<open>\<open>Thresholds(device_id=x)\<close>: the defaults of the schema.\<close>

definition default_Thresholds :: "string option \<Rightarrow> Thresholds" where
  "default_Thresholds x =
     \<lparr>th_device_id = x, pm2_5_good = 12, pm2_5_moderate = 354 / 10, pm10_good = 54,
      co2_max = 1200, tvoc_max = 500\<rparr>"

definition Thresholds_dump :: "Thresholds \<Rightarrow> fields" where
  "Thresholds_dump t =
     [(''device_id'', str_val (th_device_id t)),
      (''pm2_5_good'', VNum (pm2_5_good t)),
      (''pm2_5_moderate'', VNum (pm2_5_moderate t)),
      (''pm10_good'', VNum (pm10_good t)),
      (''co2_max'', VNum (co2_max t)),
      (''tvoc_max'', VNum (tvoc_max t))]"

text \<open>The filter both endpoints build from the device id (lines 113 and 119).\<close>

definition scope :: "string option \<Rightarrow> query" where
  "scope device_id =
     (if truthy device_id then [(''device_id'', Eq (str_val device_id))]
      else [(''device_id'', Exists False)])"

definition set_thresholds :: "Thresholds \<Rightarrow> db \<Rightarrow> string \<times> db" where
  "set_thresholds th s =
     (''ok'', update_one ''thresholds'' (scope (th_device_id th)) (Thresholds_dump th) True s)"

definition get_thresholds :: "string option \<Rightarrow> db \<Rightarrow> fields" where
  "get_thresholds device_id s =
     (case find_one (colls s ''thresholds'') (scope device_id) of
        None \<Rightarrow> Thresholds_dump (default_Thresholds device_id)
      | Some doc \<Rightarrow> returned_doc doc)"

text \<open>The stored thresholds documents of a scope: of a device, or global (no device id).\<close>

definition device_records :: "string \<Rightarrow> db \<Rightarrow> collection" where
  "device_records dev s = filter (\<lambda>d. lookup d ''device_id'' = Some (VStr dev)) (colls s ''thresholds'')"

definition global_records :: "db \<Rightarrow> collection" where
  "global_records s =
     filter (\<lambda>d. lookup d ''device_id'' = None \<or> lookup d ''device_id'' = Some VNull)
       (colls s ''thresholds'')"

text \<open>The stored thresholds documents that have no \<open>device_id\<close> field at all.\<close>

definition no_device_id_records :: "db \<Rightarrow> collection" where
  "no_device_id_records s = filter (\<lambda>d. lookup d ''device_id'' = None) (colls s ''thresholds'')"

fun set_all :: "Thresholds list \<Rightarrow> db \<Rightarrow> db" where
  "set_all [] s = s"
| "set_all (th # ths) s = set_all ths (snd (set_thresholds th s))"

section \<open>Example states\<close>

text \<open>The scenario of the spec: two commands for device \<open>d1\<close>, queued one after the other.\<close>

definition cmd_fan :: DeviceCommand where
  "cmd_fan = \<lparr>cmd_device_id = ''d1'', cmd_power = None, cmd_mode = None, cmd_fan_speed = Some 3\<rparr>"

definition cmd_off :: DeviceCommand where
  "cmd_off = \<lparr>cmd_device_id = ''d1'', cmd_power = Some False, cmd_mode = None, cmd_fan_speed = None\<rparr>"

definition two_queued :: db where
  "two_queued = snd (push_command cmd_off 2 (snd (push_command cmd_fan 1 empty_db)))"


text \<open>Thresholds written without a device id, and for the device \<open>X\<close>.\<close>

definition th_global :: Thresholds where
  "th_global = (default_Thresholds None)\<lparr>pm2_5_good := 20\<rparr>"

definition th_X :: Thresholds where
  "th_X = (default_Thresholds (Some ''X''))\<lparr>pm2_5_good := 30\<rparr>"

definition global_and_X :: db where
  "global_and_X = set_all [th_global, th_X] empty_db"

text \<open>
  A thresholds collection with a document that has no \<open>device_id\<close> field and a
  document whose \<open>device_id\<close> is the empty string, and a store with readings of
  two devices.
\<close>

definition bare_and_empty_id :: db where
  "bare_and_empty_id =
     \<lparr>colls = (\<lambda>_. [])(''thresholds'' :=
        [(0, [(''device_id'', VStr []), (''pm2_5_good'', VNum 30)]),
         (1, [(''pm2_5_good'', VNum 20)])]),
      next_oid = 2\<rparr>"

definition two_readings :: db where
  "two_readings =
     \<lparr>colls = (\<lambda>_. [])(''sensorreading'' :=
        [(0, [(''device_id'', VStr ''d1''), (''timestamp'', VTime 1)]),
         (1, [(''device_id'', VStr ''d2''), (''timestamp'', VTime 2)])]),
      next_oid = 2\<rparr>"

text \<open>
  The derived index in the words of the spec,
  \<open>clamp(max(pm2_5*5, pm10*2), 0, 500)\<close>, to be compared with what
  \<open>compute_aqi\<close> computes. The two products are products of floats.
\<close>

definition clamp :: "real \<Rightarrow> real \<Rightarrow> real \<Rightarrow> real" where
  "clamp x lo hi = min (max x lo) hi"

definition spec_aqi :: "real \<Rightarrow> real \<Rightarrow> real" where
  "spec_aqi pm25 pm10 = clamp (max (fmul pm25 5) (fmul pm10 2)) 0 500"

text \<open>The double that the literal \<open>0.6\<close> denotes.\<close>

definition double_0_6 :: real where
  "double_0_6 = 5404319552844595 / 9007199254740992"

text \<open>A reading of device \<open>d1\<close> that carries the two required measurements only.\<close>

definition reading :: "real \<Rightarrow> real \<Rightarrow> SensorReading" where
  "reading pm25 pm10 =
     \<lparr>sr_device_id = ''d1'', sr_pm2_5 = pm25, sr_pm10 = pm10, sr_co2 = None, sr_tvoc = None,
      sr_temperature = None, sr_humidity = None, sr_aqi = None, sr_timestamp = None\<rparr>"

text \<open>A request body for the queue whose \<open>device_id\<close> is the empty string.\<close>

definition raw_empty_id :: RawCommand where
  "raw_empty_id =
     \<lparr>raw_device_id = Some [], raw_power = None, raw_mode = None, raw_fan_speed = Some 3\<rparr>"

definition raw_no_id :: RawCommand where
  "raw_no_id =
     \<lparr>raw_device_id = None, raw_power = None, raw_mode = None, raw_fan_speed = Some 3\<rparr>"

section \<open>Facts about the store operations\<close>

lemma matches_id: "matches [(''_id'', Eq (VOid i))] = (\<lambda>d. fst d = i)"
  by (rule ext) (simp add: matches_def lookup_def)

lemma filter_id_distinct:
  "distinct (map fst c) \<Longrightarrow> d \<in> set c \<Longrightarrow> filter (\<lambda>x. fst x = fst d) c = [d]"
proof (induction c)
  case Nil
  then show ?case by simp
next
  case (Cons a c)
  show ?case
  proof (cases "a = d")
    case True
    have "fst d \<notin> fst ` set c" using Cons.prems True by simp
    then have "\<forall>x\<in>set c. fst x \<noteq> fst d" by (metis imageI)
    then have "filter (\<lambda>x. fst x = fst d) c = []" by (simp add: filter_empty_conv)
    with True show ?thesis by simp
  next
    case False
    then have "d \<in> set c" using Cons.prems by simp
    moreover have "fst a \<noteq> fst d" using Cons.prems \<open>d \<in> set c\<close> by (metis distinct.simps(2) imageI list.simps(9) set_map)
    ultimately show ?thesis using Cons by simp
  qed
qed

lemma delete_one_id:
  "distinct (map fst c) \<Longrightarrow> d \<in> set c \<Longrightarrow>
   delete_one c [(''_id'', Eq (VOid (fst d)))] = remove1 d c"
  by (simp add: delete_one_def find_one_def find_def matches_id filter_id_distinct)

lemma delete_one_id_absent:
  "fst d \<notin> fst ` set c \<Longrightarrow> delete_one c [(''_id'', Eq (VOid (fst d)))] = c"
proof -
  assume "fst d \<notin> fst ` set c"
  then have "\<forall>x\<in>set c. fst x \<noteq> fst d" by (metis imageI)
  then have "filter (\<lambda>x. fst x = fst d) c = []" by (simp add: filter_empty_conv)
  then show ?thesis by (simp add: delete_one_def find_one_def find_def matches_id)
qed

lemma sort_asc_head:
  "sort_asc k c = d # ds \<Longrightarrow> d \<in> set c \<and> (\<forall>x\<in>set c. sort_val k d \<le> sort_val k x)"
proof -
  assume h: "sort_asc k c = d # ds"
  have "set (sort_asc k c) = set c" by (simp add: sort_asc_def)
  moreover have "sorted (map (sort_val k) (sort_asc k c))" by (simp add: sort_asc_def)
  ultimately show ?thesis using h by auto
qed

lemma find_one_sort_Some:
  "find_one_sort c q k = Some d \<Longrightarrow>
   d \<in> set c \<and> matches q d \<and> (\<forall>x\<in>set c. matches q x \<longrightarrow> sort_val k d \<le> sort_val k x)"
  using sort_asc_head [of k "find c q" d]
  by (auto simp: find_one_sort_def find_def split: list.splits)

lemma find_one_sort_None:
  "find_one_sort c q k = None \<longleftrightarrow> find c q = []"
proof -
  have "length (sort_asc k (find c q)) = length (find c q)" by (simp add: sort_asc_def)
  then show ?thesis by (auto simp: find_one_sort_def split: list.splits)
qed

lemma remove1_distinct_filter:
  "distinct (map fst c) \<Longrightarrow> d \<in> set c \<Longrightarrow> remove1 d c = filter (\<lambda>x. fst x \<noteq> fst d) c"
proof (induction c)
  case Nil
  then show ?case by simp
next
  case (Cons a c)
  show ?case
  proof (cases "a = d")
    case True
    have "fst d \<notin> fst ` set c" using Cons.prems True by simp
    then have "\<forall>x\<in>set c. fst x \<noteq> fst d" by (metis imageI)
    then have "filter (\<lambda>x. fst x \<noteq> fst d) c = c" by (simp add: filter_id_conv)
    with True show ?thesis by simp
  next
    case False
    then have "d \<in> set c" using Cons.prems by simp
    moreover have "fst a \<noteq> fst d" using Cons.prems \<open>d \<in> set c\<close> by (metis distinct.simps(2) imageI list.simps(9) set_map)
    ultimately show ?thesis using Cons False by simp
  qed
qed

section \<open>The effect of a poll on the store\<close>

text \<open>
  Claim C10. In every store state whose queued commands have pairwise different
  \<open>_id\<close>s, a poll that returns a command removes exactly the stored document it
  returns, a command of the polled device: the collection afterwards is the one
  before without that document, every other document in its place and unchanged,
  and the other collections and the identifier counter are as before. A poll that
  returns the empty result leaves the whole store as it was.
\<close>

theorem next_command_deletes_only_returned:
  assumes "distinct (map fst (colls s ''devicecommand''))"
  shows "case next_command dev s of
           (None, s') \<Rightarrow> s' = s
         | (Some doc, s') \<Rightarrow>
             (\<exists>d\<in>set (colls s ''devicecommand'').
                doc = returned_doc d \<and>
                lookup d ''device_id'' = Some (VStr dev) \<and>
                colls s' ''devicecommand'' =
                  filter (\<lambda>x. fst x \<noteq> fst d) (colls s ''devicecommand'') \<and>
                mset (colls s ''devicecommand'') = add_mset d (mset (colls s' ''devicecommand''))) \<and>
             (\<forall>n. n \<noteq> ''devicecommand'' \<longrightarrow> colls s' n = colls s n) \<and>
             next_oid s' = next_oid s"
proof (cases "next_find dev s")
  case None
  then show ?thesis by (simp add: next_command_def next_finish_def)
next
  case (Some d)
  let ?c = "colls s ''devicecommand''"
  from Some have d: "d \<in> set ?c" and m: "matches [(''device_id'', Eq (VStr dev))] d"
    using find_one_sort_Some [of ?c _ "''created_at''" d] by (simp_all add: next_find_def)
  from m have dev: "lookup d ''device_id'' = Some (VStr dev)"
    by (auto simp: matches_def split: option.splits)
  have del: "delete_one ?c [(''_id'', Eq (VOid (fst d)))] = remove1 d ?c"
    using assms d by (rule delete_one_id)
  have fl: "remove1 d ?c = filter (\<lambda>x. fst x \<noteq> fst d) ?c"
    using assms d by (rule remove1_distinct_filter)
  have ms: "mset ?c = add_mset d (mset (remove1 d ?c))"
    using d by simp
  show ?thesis
    using Some d dev del fl ms
    by (auto simp: next_command_def next_finish_def)
qed

subsection \<open>The example queue\<close>

lemma cmd_doc_fan: "cmd_doc cmd_fan t = [(''device_id'', VStr ''d1''), (''fan_speed'', VInt 3), (''created_at'', VTime t)]"
  by (simp add: cmd_doc_def cmd_fan_def DeviceCommand_dump_def exclude_none_def opt_val_def)

lemma cmd_doc_off: "cmd_doc cmd_off t = [(''device_id'', VStr ''d1''), (''power'', VBool False), (''created_at'', VTime t)]"
  by (simp add: cmd_doc_def cmd_off_def DeviceCommand_dump_def exclude_none_def opt_val_def)

lemma push_command_colls:
  "colls (snd (push_command c now s)) =
   (colls s)(''devicecommand'' := colls s ''devicecommand'' @ [(next_oid s, cmd_doc c now)])"
  by (simp add: push_command_def create_document_def insert_one_def)

lemma push_command_next_oid: "next_oid (snd (push_command c now s)) = Suc (next_oid s)"
  by (simp add: push_command_def create_document_def insert_one_def)

lemma two_queued_commands:
  "colls two_queued ''devicecommand'' =
     [(0, [(''device_id'', VStr ''d1''), (''fan_speed'', VInt 3), (''created_at'', VTime 1)]),
      (1, [(''device_id'', VStr ''d1''), (''power'', VBool False), (''created_at'', VTime 2)])]"
  by (simp add: two_queued_def push_command_colls push_command_next_oid cmd_doc_fan cmd_doc_off empty_db_def)

lemma next_find_two_queued:
  "next_find ''d1'' two_queued =
     Some (0, [(''device_id'', VStr ''d1''), (''fan_speed'', VInt 3), (''created_at'', VTime 1)])"
  by (simp add: next_find_def find_one_sort_def sort_asc_def find_def matches_def lookup_def
       sort_val_def two_queued_commands)

theorem next_command_deletes_only_returned_witness:
  "distinct (map fst (colls two_queued ''devicecommand'')) \<and>
   fst (next_command ''d1'' two_queued) =
     Some [(''_id'', VOidStr 0), (''device_id'', VStr ''d1''), (''fan_speed'', VInt 3),
           (''created_at'', VTime 1)] \<and>
   colls (snd (next_command ''d1'' two_queued)) ''devicecommand'' =
     [(1, [(''device_id'', VStr ''d1''), (''power'', VBool False), (''created_at'', VTime 2)])]"
proof -
  have h: "distinct (map fst (colls two_queued ''devicecommand''))"
    by (simp add: two_queued_commands)
  have r: "fst (next_command ''d1'' two_queued) =
     Some [(''_id'', VOidStr 0), (''device_id'', VStr ''d1''), (''fan_speed'', VInt 3),
           (''created_at'', VTime 1)]"
    by (simp add: next_command_def next_finish_def next_find_two_queued returned_doc_def)
  show ?thesis
    using next_command_deletes_only_returned [OF h, of "''d1''"] h r
    by (cases "next_command ''d1'' two_queued") (auto simp: two_queued_commands returned_doc_def)
qed


section \<open>Thresholds\<close>

lemma update_fresh: "k \<notin> fst ` set b \<Longrightarrow> AList.update k v b = b @ [(k, v)]"
  by (induction b) auto

lemma set_fields_fresh:
  "distinct (map fst u) \<Longrightarrow> fst ` set u \<inter> fst ` set b = {} \<Longrightarrow> set_fields u b = b @ u"
proof (induction u arbitrary: b)
  case Nil
  then show ?case by (simp add: set_fields_def)
next
  case (Cons kv u)
  obtain k v where kv: "kv = (k, v)" by (cases kv)
  have fresh: "k \<notin> fst ` set b" using Cons.prems(2) kv by auto
  have step: "set_fields (kv # u) b = set_fields u (b @ [(k, v)])"
    using fresh by (simp add: set_fields_def kv update_fresh)
  have "distinct (map fst u)" using Cons.prems(1) by simp
  moreover have "fst ` set u \<inter> fst ` set (b @ [(k, v)]) = {}"
    using Cons.prems kv by auto
  ultimately have "set_fields u (b @ [(k, v)]) = (b @ [(k, v)]) @ u" by (rule Cons.IH)
  with step kv show ?case by simp
qed

lemma Thresholds_dump_keys:
  "map fst (Thresholds_dump t) =
     [''device_id'', ''pm2_5_good'', ''pm2_5_moderate'', ''pm10_good'', ''co2_max'', ''tvoc_max'']"
  by (simp add: Thresholds_dump_def)

lemma set_fields_Thresholds_dump: "set_fields (Thresholds_dump t) [] = Thresholds_dump t"
  using set_fields_fresh [of "Thresholds_dump t" "[]"] by (simp add: Thresholds_dump_keys)

lemma scope_global: "scope None = [(''device_id'', Exists False)]"
  by (simp add: scope_def truthy_def)

lemma scope_device: "dev \<noteq> [] \<Longrightarrow> scope (Some dev) = [(''device_id'', Eq (VStr dev))]"
  by (simp add: scope_def truthy_def str_val_def opt_val_def)

lemma lookup_dump_device_id:
  "lookup (i, Thresholds_dump t) ''device_id'' = Some (str_val (th_device_id t))"
  by (simp add: lookup_def Thresholds_dump_def)

lemma global_scope_misses_dump: "\<not> matches [(''device_id'', Exists False)] (i, Thresholds_dump t)"
  by (simp add: matches_def lookup_dump_device_id)

lemma th_global_id: "th_device_id th_global = None"
  by (simp add: th_global_def default_Thresholds_def)

lemma th_X_id: "th_device_id th_X = Some ''X''"
  by (simp add: th_X_def default_Thresholds_def)

lemma set_global_empty:
  "snd (set_thresholds th_global empty_db) =
     \<lparr>colls = (\<lambda>_. [])(''thresholds'' := [(0, Thresholds_dump th_global)]), next_oid = 1\<rparr>"
  by (simp add: set_thresholds_def update_one_def Let_def find_def empty_db_def th_global_id
      scope_global set_fields_Thresholds_dump)

lemma set_global_twice:
  "colls (set_all [th_global, th_global] empty_db) ''thresholds'' =
     [(0, Thresholds_dump th_global), (1, Thresholds_dump th_global)]"
  by (simp add: set_global_empty)
     (simp add: set_thresholds_def update_one_def Let_def find_def th_global_id
        scope_global set_fields_Thresholds_dump global_scope_misses_dump)

text \<open>
  Claim C4. The claim asks for at most one record per scope after any sequence of
  writes. Two writes without a device id, starting from the empty store, leave
  two global records: the document written carries \<open>device_id\<close> with the value
  null, so the filter \<open>{"device_id": {"$exists": False}}\<close> of the second write
  does not match it and the upsert inserts again.
\<close>

theorem set_thresholds_global_twice_two_records:
  "length (global_records (set_all [th_global, th_global] empty_db)) = 2"
  unfolding global_records_def set_global_twice
  by (simp add: lookup_dump_device_id th_global_id str_val_def opt_val_def)

text \<open>
  Claim C5. The claim asks that a global record that was written is the one read
  back without a device id. After a global write with \<open>pm2_5_good = 20\<close> into
  the empty store, the read without a device id answers with the defaults of the
  schema (\<open>pm2_5_good = 12\<close>): its filter asks for documents without a
  \<open>device_id\<close> field, and the stored record has the field, set to null.
\<close>

theorem get_thresholds_global_after_set_defaults:
  "get_thresholds None (snd (set_thresholds th_global empty_db)) =
     Thresholds_dump (default_Thresholds None) \<and>
   get (get_thresholds None (snd (set_thresholds th_global empty_db))) ''pm2_5_good'' = VNum 12 \<and>
   get (Thresholds_dump th_global) ''pm2_5_good'' = VNum 20"
  by (simp add: set_global_empty get_thresholds_def find_one_def find_def scope_global
      global_scope_misses_dump)
     (simp add: Thresholds_dump_def default_Thresholds_def get_def th_global_def)

lemma matches_device:
  "matches [(''device_id'', Eq (VStr dev))] = (\<lambda>d. lookup d ''device_id'' = Some (VStr dev))"
  by (rule ext) (auto simp: matches_def split: option.splits)

lemma get_returned_doc:
  "k \<noteq> ''_id'' \<Longrightarrow> get (returned_doc d) k = (case lookup d k of None \<Rightarrow> VNull | Some v \<Rightarrow> v)"
  by (simp add: get_def returned_doc_def lookup_def)

text \<open>
  Claim C6. For a device id that is not the empty string, the read looks at the
  records of that device only: it answers with the first stored record whose
  \<open>device_id\<close> is the given one and, when there is none, with the defaults of the
  schema carrying that device id. In both cases the answer's \<open>device_id\<close> is the
  given one, so it is never the global record, whatever else is stored.
\<close>

theorem get_thresholds_device_scope_only:
  assumes "dev \<noteq> []"
  shows "get_thresholds (Some dev) s =
           (case device_records dev s of
              [] \<Rightarrow> Thresholds_dump (default_Thresholds (Some dev))
            | d # _ \<Rightarrow> returned_doc d) \<and>
         get (get_thresholds (Some dev) s) ''device_id'' = VStr dev"
proof -
  have eq: "find (colls s ''thresholds'') (scope (Some dev)) = device_records dev s"
    using assms by (simp add: find_def scope_device matches_device device_records_def)
  have first: "get_thresholds (Some dev) s =
           (case device_records dev s of
              [] \<Rightarrow> Thresholds_dump (default_Thresholds (Some dev))
            | d # _ \<Rightarrow> returned_doc d)"
    by (simp add: get_thresholds_def find_one_def eq split: list.splits)
  have second: "get (get_thresholds (Some dev) s) ''device_id'' = VStr dev"
  proof (cases "device_records dev s")
    case Nil
    then show ?thesis
      by (simp add: first Thresholds_dump_def default_Thresholds_def get_def str_val_def opt_val_def)
  next
    case (Cons d ds)
    then have "d \<in> set (device_records dev s)" by simp
    then have "lookup d ''device_id'' = Some (VStr dev)" by (simp add: device_records_def)
    then show ?thesis by (simp add: first Cons get_returned_doc)
  qed
  from first second show ?thesis by simp
qed

lemma set_fields_Thresholds_dump_scope:
  "set_fields (Thresholds_dump t) [(''device_id'', v)] = Thresholds_dump t"
  by (simp add: set_fields_def Thresholds_dump_def)

lemma global_and_X_thresholds:
  "colls global_and_X ''thresholds'' = [(0, Thresholds_dump th_global), (1, Thresholds_dump th_X)]"
  unfolding global_and_X_def
  by (simp add: set_global_empty)
     (simp add: set_thresholds_def update_one_def Let_def find_def th_X_id scope_device
        matches_device lookup_dump_device_id th_global_id str_val_def opt_val_def
        set_fields_Thresholds_dump_scope)

theorem get_thresholds_device_scope_only_witness:
  "''Y'' \<noteq> [] \<and> ''X'' \<noteq> [] \<and>
   global_records global_and_X = [(0, Thresholds_dump th_global)] \<and>
   get_thresholds (Some ''Y'') global_and_X = Thresholds_dump (default_Thresholds (Some ''Y'')) \<and>
   get_thresholds (Some ''X'') global_and_X = returned_doc (1, Thresholds_dump th_X)"
proof -
  have y: "''Y'' \<noteq> []" and x: "''X'' \<noteq> []" by simp_all
  have g: "global_records global_and_X = [(0, Thresholds_dump th_global)]"
    by (simp add: global_records_def global_and_X_thresholds lookup_dump_device_id th_global_id
        th_X_id str_val_def opt_val_def)
  have ry: "device_records ''Y'' global_and_X = []"
    by (simp add: device_records_def global_and_X_thresholds lookup_dump_device_id th_global_id
        th_X_id str_val_def opt_val_def)
  have rx: "device_records ''X'' global_and_X = [(1, Thresholds_dump th_X)]"
    by (simp add: device_records_def global_and_X_thresholds lookup_dump_device_id th_global_id
        th_X_id str_val_def opt_val_def)
  show ?thesis
    using get_thresholds_device_scope_only [OF y, of global_and_X]
      get_thresholds_device_scope_only [OF x, of global_and_X] g
    by (simp add: ry rx)
qed

section \<open>The empty device id\<close>

lemma find_all: "find c [] = c"
  by (simp add: find_def matches_def)

lemma matches_no_device_id:
  "matches [(''device_id'', Exists False)] = (\<lambda>d. lookup d ''device_id'' = None)"
  by (rule ext) (simp add: matches_def)

lemma scope_empty: "scope (Some []) = [(''device_id'', Exists False)]"
  by (simp add: scope_def truthy_def)

lemma find_global_scope:
  "find (colls s ''thresholds'') [(''device_id'', Exists False)] = no_device_id_records s"
  by (simp add: find_def matches_no_device_id no_device_id_records_def)

lemma get_thresholds_empty_id:
  "get_thresholds (Some []) s =
     (case no_device_id_records s of
        [] \<Rightarrow> Thresholds_dump (default_Thresholds (Some []))
      | d # _ \<Rightarrow> returned_doc d)"
  by (simp add: get_thresholds_def find_one_def scope_empty find_global_scope split: list.splits)

lemma get_thresholds_no_id:
  "get_thresholds None s =
     (case no_device_id_records s of
        [] \<Rightarrow> Thresholds_dump (default_Thresholds None)
      | d # _ \<Rightarrow> returned_doc d)"
  by (simp add: get_thresholds_def find_one_def scope_global find_global_scope split: list.splits)

lemma latest_readings_empty_id:
  "get_latest_readings (Some []) n s =
     map render (limit n (sort_desc ''timestamp'' (colls s ''sensorreading'')))"
  by (simp add: get_latest_readings_def latest_query_def truthy_def find_all)

lemma latest_readings_no_id:
  "get_latest_readings None n s =
     map render (limit n (sort_desc ''timestamp'' (colls s ''sensorreading'')))"
  by (simp add: get_latest_readings_def latest_query_def truthy_def find_all)

lemma mset_sort_desc: "mset (sort_desc k c) = mset c"
  by (simp add: sort_desc_def)

text \<open>
  Claim C9. An empty string given as \<open>device_id\<close> acts as no device id.
  \<open>GET /api/readings/latest?device_id=\<close> answers as the request without the
  parameter does: with no limit (\<open>limit = 0\<close>) the answer holds every stored
  reading, of whatever device, once, and a limit cuts that answer to its first
  entries. \<open>GET /api/thresholds?device_id=\<close> answers from the documents that have
  no \<open>device_id\<close> field, the ones the request without the parameter reads, and
  not from a document whose \<open>device_id\<close> is the empty string: whenever such a
  document exists, both requests return it. When none exists both answer with the
  defaults of the schema, the one carrying \<open>device_id\<close> as given.
\<close>

theorem empty_device_id_is_no_device_id:
  "latest_query (Some []) = [] \<and>
   get_latest_readings (Some []) n s = get_latest_readings None n s \<and>
   mset (get_latest_readings (Some []) 0 s) = image_mset render (mset (colls s ''sensorreading'')) \<and>
   get_latest_readings (Some []) n s =
     (if n = 0 then get_latest_readings (Some []) 0 s
      else take (nat \<bar>n\<bar>) (get_latest_readings (Some []) 0 s)) \<and>
   scope (Some []) = [(''device_id'', Exists False)] \<and>
   scope (Some []) = scope None \<and>
   get_thresholds (Some []) s =
     (case no_device_id_records s of
        [] \<Rightarrow> Thresholds_dump (default_Thresholds (Some []))
      | d # _ \<Rightarrow> returned_doc d) \<and>
   get_thresholds None s =
     (case no_device_id_records s of
        [] \<Rightarrow> Thresholds_dump (default_Thresholds None)
      | d # _ \<Rightarrow> returned_doc d) \<and>
   get_thresholds (Some []) s =
     (if no_device_id_records s = [] then Thresholds_dump (default_Thresholds (Some []))
      else get_thresholds None s)"
proof -
  have q: "latest_query (Some []) = []" by (simp add: latest_query_def truthy_def)
  have same: "get_latest_readings (Some []) n s = get_latest_readings None n s"
    by (simp add: latest_readings_empty_id latest_readings_no_id)
  have all: "mset (get_latest_readings (Some []) 0 s) =
             image_mset render (mset (colls s ''sensorreading''))"
    by (simp add: latest_readings_empty_id limit_def mset_sort_desc)
  have cut: "get_latest_readings (Some []) n s =
     (if n = 0 then get_latest_readings (Some []) 0 s
      else take (nat \<bar>n\<bar>) (get_latest_readings (Some []) 0 s))"
    by (simp add: latest_readings_empty_id limit_def take_map)
  have sc: "scope (Some []) = [(''device_id'', Exists False)]" by (rule scope_empty)
  have sc2: "scope (Some []) = scope None" by (simp add: scope_empty scope_global)
  have both: "get_thresholds (Some []) s =
     (if no_device_id_records s = [] then Thresholds_dump (default_Thresholds (Some []))
      else get_thresholds None s)"
    by (simp add: get_thresholds_empty_id get_thresholds_no_id split: list.splits)
  show ?thesis
  proof (intro conjI)
    show "latest_query (Some []) = []" by (rule q)
  qed (rule same all cut sc sc2 get_thresholds_empty_id get_thresholds_no_id both)+
qed

text \<open>
  On a store with readings of two devices the request with the empty device id
  returns both, newest first. On a thresholds collection holding a document
  with \<open>device_id\<close> the empty string and a document without the field, it
  returns the latter.
\<close>

theorem empty_device_id_is_no_device_id_witness:
  "get_latest_readings (Some []) 50 two_readings =
     [[(''_id'', VOidStr 1), (''device_id'', VStr ''d2''), (''timestamp'', VIso 2)],
      [(''_id'', VOidStr 0), (''device_id'', VStr ''d1''), (''timestamp'', VIso 1)]] \<and>
   get_latest_readings None 50 two_readings = get_latest_readings (Some []) 50 two_readings \<and>
   get_thresholds (Some []) bare_and_empty_id = [(''_id'', VOidStr 1), (''pm2_5_good'', VNum 20)] \<and>
   get_thresholds None bare_and_empty_id = [(''_id'', VOidStr 1), (''pm2_5_good'', VNum 20)]"
proof -
  have r: "get_latest_readings (Some []) 0 two_readings =
     [[(''_id'', VOidStr 1), (''device_id'', VStr ''d2''), (''timestamp'', VIso 2)],
      [(''_id'', VOidStr 0), (''device_id'', VStr ''d1''), (''timestamp'', VIso 1)]]"
    by (simp add: latest_readings_empty_id limit_def sort_desc_def sort_val_def lookup_def
        two_readings_def render_def)
  have n: "no_device_id_records bare_and_empty_id = [(1, [(''pm2_5_good'', VNum 20)])]"
    by (simp add: no_device_id_records_def bare_and_empty_id_def lookup_def)
  note t = empty_device_id_is_no_device_id [of 50 two_readings]
  note u = empty_device_id_is_no_device_id [of 50 bare_and_empty_id]
  have a: "get_latest_readings (Some []) 50 two_readings =
     [[(''_id'', VOidStr 1), (''device_id'', VStr ''d2''), (''timestamp'', VIso 2)],
      [(''_id'', VOidStr 0), (''device_id'', VStr ''d1''), (''timestamp'', VIso 1)]]"
    using t [THEN conjunct2, THEN conjunct2, THEN conjunct2, THEN conjunct1] by (simp add: r)
  have b: "get_latest_readings None 50 two_readings = get_latest_readings (Some []) 50 two_readings"
    using t [THEN conjunct2, THEN conjunct1] by simp
  have c: "get_thresholds (Some []) bare_and_empty_id = [(''_id'', VOidStr 1), (''pm2_5_good'', VNum 20)]"
    using u [THEN conjunct2, THEN conjunct2, THEN conjunct2, THEN conjunct2, THEN conjunct2,
             THEN conjunct2, THEN conjunct1]
    by (simp add: n returned_doc_def)
  have d: "get_thresholds None bare_and_empty_id = [(''_id'', VOidStr 1), (''pm2_5_good'', VNum 20)]"
    using u [THEN conjunct2, THEN conjunct2, THEN conjunct2, THEN conjunct2, THEN conjunct2,
             THEN conjunct2, THEN conjunct2, THEN conjunct1]
    by (simp add: n returned_doc_def)
  show ?thesis
  proof (intro conjI)
    show "get_latest_readings (Some []) 50 two_readings =
     [[(''_id'', VOidStr 1), (''device_id'', VStr ''d2''), (''timestamp'', VIso 2)],
      [(''_id'', VOidStr 0), (''device_id'', VStr ''d1''), (''timestamp'', VIso 1)]]" by (rule a)
  qed (rule b c d)+
qed

section \<open>Ingestion\<close>

lemma update_one_other: "name' \<noteq> name \<Longrightarrow> colls (update_one name q u b s) name' = colls s name'"
  by (simp add: update_one_def Let_def)

lemma create_document_other:
  "name' \<noteq> name \<Longrightarrow> colls (snd (create_document name doc s)) name' = colls s name'"
  by (simp add: create_document_def insert_one_def)

lemma create_document_same:
  "colls (snd (create_document name doc s)) name = colls s name @ [(next_oid s, doc)]"
  by (simp add: create_document_def insert_one_def)

lemma heartbeat_other: "name \<noteq> ''device'' \<Longrightarrow> colls (heartbeat dev now s) name = colls s name"
  by (simp add: heartbeat_def Let_def update_one_other create_document_other)

lemma ingest_reading_stored:
  "colls (snd (ingest_reading p t1 t2 s)) ''sensorreading'' =
     colls s ''sensorreading'' @ [(next_oid (heartbeat (sr_device_id p) t2 s), reading_data p t1)]"
  by (simp add: ingest_reading_def Let_def split_def create_document_same heartbeat_other)

lemma ingest_reading_device:
  "colls (snd (ingest_reading p t1 t2 s)) ''device'' = colls (heartbeat (sr_device_id p) t2 s) ''device''"
  by (simp add: ingest_reading_def Let_def split_def create_document_other)

lemma max_clamps:
  "max (min (max (a::real) 0) 500) (min (max b 0) 500) = min (max (max a b) 0) 500"
  by (simp add: max_def min_def)

lemma compute_aqi_floor:
  "compute_aqi (Some a) (Some b) = Some \<lfloor>spec_aqi a b\<rfloor>"
proof -
  have "0 \<le> spec_aqi a b" by (simp add: spec_aqi_def clamp_def)
  then show ?thesis
    by (simp add: compute_aqi_def Let_def or0_def py_int_def spec_aqi_def clamp_def max_clamps)
qed

lemma compute_aqi_None: "(compute_aqi a b = None) = (a = None \<and> b = None)"
  by (simp add: compute_aqi_def Let_def)

lemma reading_data_aqi:
  "sr_aqi p = None \<Longrightarrow>
   get (reading_data p t) ''aqi'' = VInt \<lfloor>spec_aqi (sr_pm2_5 p) (sr_pm10 p)\<rfloor>"
  by (simp add: reading_data_def Let_def SensorReading_dump_def get_def opt_val_def float_of_def
      compute_aqi_floor split: option.splits)

subsection \<open>Rounding of the products\<close>

lemma floor_log2:
  assumes "2 ^ n \<le> x" and "x < 2 ^ Suc n"
  shows "\<lfloor>log 2 x\<rfloor> = int n"
proof -
  have "(0::real) < 2 ^ n" by simp
  then have x: "0 < x" using assms(1) by linarith
  have lo: "real n \<le> log 2 x" using assms(1) x by (simp add: le_log_iff powr_realpow)
  have "x < 2 powr (real n + 1)" using assms(2) by (simp add: powr_add powr_realpow)
  then have hi: "log 2 x < real n + 1" using x by (simp add: log_less_iff)
  from lo hi show ?thesis by (simp add: floor_eq_iff)
qed

lemma fl_0: "fl 0 = 0"
  by (simp add: fl_def)

lemma fl_10: "fl 10 = 10"
proof -
  have "\<lfloor>log 2 (10::real)\<rfloor> = 3" using floor_log2 [of 3 10] by simp
  then show ?thesis by (simp add: fl_def round_even_def Let_def pow2_def)
qed

lemma fl_50: "fl 50 = 50"
proof -
  have "\<lfloor>log 2 (50::real)\<rfloor> = 5" using floor_log2 [of 5 50] by simp
  then show ?thesis by (simp add: fl_def round_even_def Let_def pow2_def)
qed

lemma fl_1000: "fl 1000 = 1000"
proof -
  have "\<lfloor>log 2 (1000::real)\<rfloor> = 9" using floor_log2 [of 9 1000] by simp
  then show ?thesis by (simp add: fl_def round_even_def Let_def pow2_def)
qed

lemma fl_5_2: "fl (5 / 2) = 5 / 2"
proof -
  have "\<lfloor>log 2 (5 / 2 :: real)\<rfloor> = 1" using floor_log2 [of 1 "5 / 2"] by simp
  then show ?thesis by (simp add: fl_def round_even_def Let_def pow2_def)
qed

text \<open>
  The product of the double 0.6 and 5 lies just below 3 and rounds to 3, so the
  index computed for it is 3, while the whole part of the exact product is 2.
\<close>

lemma fmul_double_0_6: "fmul double_0_6 5 = 3"
proof -
  have "\<lfloor>log 2 (27021597764222975 / 9007199254740992 :: real)\<rfloor> = 1"
    using floor_log2 [of 1 "27021597764222975 / 9007199254740992"] by simp
  then show ?thesis by (simp add: fmul_def double_0_6_def fl_def round_even_def Let_def pow2_def)
qed

lemma compute_aqi_double_0_6:
  "compute_aqi (Some double_0_6) (Some 0) = Some 3 \<and> \<lfloor>double_0_6 * 5\<rfloor> = 2"
proof -
  have "compute_aqi (Some double_0_6) (Some 0) = Some 3"
    by (simp add: compute_aqi_def Let_def or0_def fmul_double_0_6 py_int_def)
       (simp add: fmul_def fl_0)
  moreover have "\<lfloor>double_0_6 * 5\<rfloor> = 2"
    by (simp add: double_0_6_def floor_eq_iff)
  ultimately show ?thesis by simp
qed

lemma spec_aqi_10_5: "spec_aqi 10 5 = 50"
  by (simp add: spec_aqi_def clamp_def fmul_def fl_50 fl_10)

lemma spec_aqi_200_0: "spec_aqi 200 0 = 500"
  by (simp add: spec_aqi_def clamp_def fmul_def fl_1000 fl_0)

lemma spec_aqi_half: "spec_aqi (1 / 2) 0 = 5 / 2"
  by (simp add: spec_aqi_def clamp_def fmul_def fl_5_2 fl_0)

text \<open>
  Claim C7, as amended. A reading ingested without \<open>aqi\<close> is stored with the
  whole part of \<open>clamp(max(pm2_5*5, pm10*2), 0, 500)\<close>, where the two products are
  the float products as Python rounds them: \<open>compute_aqi\<close> ends with \<open>int(...)\<close>,
  which drops the fraction. The stored value is never null, and \<open>compute_aqi\<close>
  gives null only when both of its arguments are absent (\<open>compute_aqi_None\<close>).
\<close>

theorem ingest_reading_derives_aqi:
  assumes "sr_aqi p = None"
  shows "(\<exists>i. colls (snd (ingest_reading p t1 t2 s)) ''sensorreading'' =
               colls s ''sensorreading'' @ [(i, reading_data p t1)]) \<and>
         get (reading_data p t1) ''aqi'' = VInt \<lfloor>spec_aqi (sr_pm2_5 p) (sr_pm10 p)\<rfloor> \<and>
         get (reading_data p t1) ''aqi'' \<noteq> VNull"
  using assms by (simp add: ingest_reading_stored reading_data_aqi)

text \<open>The two examples of the spec: \<open>{pm2_5: 10, pm10: 5}\<close> gives 50, \<open>{pm2_5: 200, pm10: 0}\<close> gives 500.\<close>

theorem ingest_reading_derives_aqi_witness:
  "sr_aqi (reading 10 5) = None \<and> sr_aqi (reading 200 0) = None \<and>
   get (reading_data (reading 10 5) 7) ''aqi'' = VInt 50 \<and>
   get (reading_data (reading 200 0) 7) ''aqi'' = VInt 500"
proof -
  have a: "sr_aqi (reading 10 5) = None" and b: "sr_aqi (reading 200 0) = None"
    by (simp_all add: reading_def)
  have pa: "sr_pm2_5 (reading 10 5) = 10" "sr_pm10 (reading 10 5) = 5"
    and pb: "sr_pm2_5 (reading 200 0) = 200" "sr_pm10 (reading 200 0) = 0"
    by (simp_all add: reading_def)
  show ?thesis
    using ingest_reading_derives_aqi [OF a, of 7 8 empty_db]
      ingest_reading_derives_aqi [OF b, of 7 8 empty_db] a b
    by (simp add: pa pb spec_aqi_10_5 spec_aqi_200_0)
qed

text \<open>
  Claim C7 as stated fails where the clamped value is not a whole number: for
  \<open>{pm2_5: 0.5, pm10: 0}\<close> the product 2.5 is a double, the formula gives 2.5 and
  the stored \<open>aqi\<close> is 2.
\<close>

theorem ingest_reading_aqi_not_clamp_counterexample:
  "sr_aqi (reading (1 / 2) 0) = None \<and>
   float_of (get (snd (last (colls (snd (ingest_reading (reading (1 / 2) 0) 7 8 empty_db))
                              ''sensorreading''))) ''aqi'') = Some 2 \<and>
   float_of (get (snd (last (colls (snd (ingest_reading (reading (1 / 2) 0) 7 8 empty_db))
                              ''sensorreading''))) ''aqi'') \<noteq>
     Some (spec_aqi (sr_pm2_5 (reading (1 / 2) 0)) (sr_pm10 (reading (1 / 2) 0))) \<and>
   spec_aqi (sr_pm2_5 (reading (1 / 2) 0)) (sr_pm10 (reading (1 / 2) 0)) = 5 / 2"
proof -
  have a: "sr_aqi (reading (1 / 2) 0) = None" by (simp add: reading_def)
  have "get (reading_data (reading (1 / 2) 0) 7) ''aqi'' = VInt 2"
    using reading_data_aqi [OF a, of 7] by (simp add: reading_def spec_aqi_half)
  then show ?thesis
    using a spec_aqi_half by (simp add: ingest_reading_stored float_of_def reading_def)
qed

subsection \<open>The heartbeat\<close>

text \<open>For a known device the heartbeat changes nothing but \<open>last_seen\<close>.\<close>

lemma lookup_set_field:
  "k' \<noteq> k \<Longrightarrow> lookup (i, set_fields [(k, v)] b) k' = lookup (i, b) k'"
  by (simp add: lookup_def set_fields_def update_conv')

lemma update_first_frame:
  "list_all2 (\<lambda>d' d. fst d' = fst d \<and> (\<forall>k'. k' \<noteq> k \<longrightarrow> lookup d' k' = lookup d k'))
     (update_first q [(k, v)] c) c"
proof (induction c)
  case Nil
  then show ?case by simp
next
  case (Cons d c)
  have same: "list_all2 (\<lambda>d' d. fst d' = fst d \<and> (\<forall>k'. k' \<noteq> k \<longrightarrow> lookup d' k' = lookup d k')) c c"
    by (simp add: list_all2_same)
  show ?case
  proof (cases "matches q d")
    case True
    have "\<forall>k'. k' \<noteq> k \<longrightarrow> lookup (fst d, set_fields [(k, v)] (snd d)) k' = lookup d k'"
      using lookup_set_field [of _ k "fst d" v "snd d"] by simp
    with True same show ?thesis by simp
  next
    case False
    with Cons show ?thesis by simp
  qed
qed

lemma heartbeat_known_device:
  assumes "find (colls s ''device'') [(''device_id'', Eq (VStr dev))] \<noteq> []"
  shows "list_all2 (\<lambda>d' d. fst d' = fst d \<and>
                      (\<forall>k. k \<noteq> ''last_seen'' \<longrightarrow> lookup d' k = lookup d k))
           (colls (heartbeat dev now s) ''device'') (colls s ''device'')"
  using assms update_first_frame [of "''last_seen''"]
  by (simp add: heartbeat_def Let_def update_one_def)

lemma heartbeat_new_device:
  "find (colls s ''device'') [(''device_id'', Eq (VStr dev))] = [] \<Longrightarrow>
   colls (heartbeat dev now s) ''device'' = colls s ''device'' @ [(next_oid s, Device_dump (new_Device dev))]"
  by (simp add: heartbeat_def Let_def create_document_same)

text \<open>
  Claim C3. The claim asks that the record created for an unseen device has
  \<open>last_seen\<close> set to the current time. The first reading of device \<open>d1\<close> into
  the empty store creates the record with the defaults of the schema, and its
  \<open>last_seen\<close> is null: \<open>Device(device_id=...).model_dump()\<close> is stored as it is,
  and only the branch for a known device writes the clock reading.
\<close>

theorem ingest_reading_new_device_last_seen_null:
  "colls (snd (ingest_reading (reading 10 5) 7 8 empty_db)) ''device'' =
     [(0, [(''device_id'', VStr ''d1''), (''name'', VNull), (''location'', VNull),
           (''power'', VBool True), (''mode'', VStr ''auto''), (''fan_speed'', VInt 1),
           (''last_seen'', VNull)])] \<and>
   map (\<lambda>d. lookup d ''last_seen'') (colls (snd (ingest_reading (reading 10 5) 7 8 empty_db)) ''device'') =
     [Some VNull]"
proof -
  have "find (colls empty_db ''device'') [(''device_id'', Eq (VStr ''d1''))] = []"
    by (simp add: empty_db_def find_def)
  then have "colls (heartbeat ''d1'' 8 empty_db) ''device'' = [(0, Device_dump (new_Device ''d1''))]"
    using heartbeat_new_device [of empty_db "''d1''" 8] by (simp add: empty_db_def)
  then show ?thesis
    by (simp add: ingest_reading_device reading_def Device_dump_def new_Device_def opt_val_def
        lookup_def)
qed

section \<open>Enqueueing\<close>

lemma exclude_none_no_null: "VNull \<notin> snd ` set (exclude_none d)"
  by (auto simp: exclude_none_def)

lemma cmd_doc_fields:
  "cmd_doc c now =
     [(''device_id'', VStr (cmd_device_id c))] @
     (case cmd_power c of None \<Rightarrow> [] | Some b \<Rightarrow> [(''power'', VBool b)]) @
     (case cmd_mode c of None \<Rightarrow> [] | Some m \<Rightarrow> [(''mode'', mode_val m)]) @
     (case cmd_fan_speed c of None \<Rightarrow> [] | Some n \<Rightarrow> [(''fan_speed'', VInt n)]) @
     [(''created_at'', VTime now)]"
proof -
  have m: "\<And>m. mode_val m \<noteq> VNull" by (case_tac m) simp_all
  show ?thesis
    by (simp add: cmd_doc_def exclude_none_def DeviceCommand_dump_def opt_val_def m
        split: option.splits)
qed

lemma cmd_doc_no_null: "VNull \<notin> snd ` set (cmd_doc c now)"
proof -
  have m: "\<And>m. VNull \<noteq> mode_val m" by (case_tac m) simp_all
  show ?thesis by (auto simp: cmd_doc_fields m split: option.splits)
qed

lemma validate_device_id:
  "validate_DeviceCommand r = Inr c \<Longrightarrow> raw_device_id r = Some (cmd_device_id c)"
  by (auto simp: validate_DeviceCommand_def split: option.splits sum.splits if_splits)

text \<open>
  Claim C8, as amended. A body without \<open>device_id\<close> is rejected with a validation
  error and the store is unchanged. A body that passes validation, whatever string
  its \<open>device_id\<close> is, is queued: one document is appended, made of \<open>device_id\<close>,
  the optional fields that were given, and \<open>created_at\<close>; no field of it is null.
  The empty string passes validation like any other \<open>device_id\<close>.
\<close>

theorem post_commands_requires_device_id_present:
  "(raw_device_id r = None \<longrightarrow> post_commands r now s = (Inl (ValidationError ''device_id''), s)) \<and>
   (validate_DeviceCommand r = Inr c \<longrightarrow>
      raw_device_id r = Some (cmd_device_id c) \<and>
      fst (post_commands r now s) = Inr (''queued'', next_oid s) \<and>
      colls (snd (post_commands r now s)) ''devicecommand'' =
        colls s ''devicecommand'' @ [(next_oid s, cmd_doc c now)] \<and>
      map fst (cmd_doc c now) =
        [''device_id''] @
        (if cmd_power c = None then [] else [''power'']) @
        (if cmd_mode c = None then [] else [''mode'']) @
        (if cmd_fan_speed c = None then [] else [''fan_speed'']) @
        [''created_at''] \<and>
      VNull \<notin> snd ` set (cmd_doc c now)) \<and>
   validate_DeviceCommand
     \<lparr>raw_device_id = Some [], raw_power = p, raw_mode = None, raw_fan_speed = None\<rparr> =
     Inr \<lparr>cmd_device_id = [], cmd_power = p, cmd_mode = None, cmd_fan_speed = None\<rparr>"
proof -
  have a: "raw_device_id r = None \<longrightarrow> post_commands r now s = (Inl (ValidationError ''device_id''), s)"
    by (simp add: post_commands_def validate_DeviceCommand_def)
  have b: "validate_DeviceCommand r = Inr c \<longrightarrow>
      raw_device_id r = Some (cmd_device_id c) \<and>
      fst (post_commands r now s) = Inr (''queued'', next_oid s) \<and>
      colls (snd (post_commands r now s)) ''devicecommand'' =
        colls s ''devicecommand'' @ [(next_oid s, cmd_doc c now)]"
    by (auto simp: post_commands_def push_command_def create_document_def insert_one_def
        validate_device_id)
  have k: "map fst (cmd_doc c now) =
        [''device_id''] @
        (if cmd_power c = None then [] else [''power'']) @
        (if cmd_mode c = None then [] else [''mode'']) @
        (if cmd_fan_speed c = None then [] else [''fan_speed'']) @
        [''created_at'']"
    by (simp add: cmd_doc_fields split: option.splits)
  have e: "validate_DeviceCommand
     \<lparr>raw_device_id = Some [], raw_power = p, raw_mode = None, raw_fan_speed = None\<rparr> =
     Inr \<lparr>cmd_device_id = [], cmd_power = p, cmd_mode = None, cmd_fan_speed = None\<rparr>"
    by (simp add: validate_DeviceCommand_def parse_mode_def)
  from a b k e cmd_doc_no_null [of c now] show ?thesis by blast
qed

text \<open>
  Claim C8 as stated fails: the schema puts no constraint on the length of
  \<open>device_id\<close>, and a command for the empty device id is queued and stored.
\<close>

theorem post_commands_empty_device_id_counterexample:
  "raw_device_id raw_empty_id = Some [] \<and>
   fst (post_commands raw_empty_id 1 empty_db) = Inr (''queued'', 0) \<and>
   colls (snd (post_commands raw_empty_id 1 empty_db)) ''devicecommand'' =
     [(0, [(''device_id'', VStr []), (''fan_speed'', VInt 3), (''created_at'', VTime 1)])]"
  by (simp add: raw_empty_id_def post_commands_def validate_DeviceCommand_def parse_mode_def
      push_command_def create_document_def insert_one_def empty_db_def cmd_doc_fields)

theorem post_commands_requires_device_id_present_witness:
  "raw_device_id raw_no_id = None \<and>
   post_commands raw_no_id 1 empty_db = (Inl (ValidationError ''device_id''), empty_db) \<and>
   validate_DeviceCommand raw_empty_id =
     Inr \<lparr>cmd_device_id = [], cmd_power = None, cmd_mode = None, cmd_fan_speed = Some 3\<rparr> \<and>
   map fst (cmd_doc \<lparr>cmd_device_id = [], cmd_power = None, cmd_mode = None, cmd_fan_speed = Some 3\<rparr> 1) =
     [''device_id'', ''fan_speed'', ''created_at'']"
proof -
  have n: "raw_device_id raw_no_id = None" by (simp add: raw_no_id_def)
  have v: "validate_DeviceCommand raw_empty_id =
     Inr \<lparr>cmd_device_id = [], cmd_power = None, cmd_mode = None, cmd_fan_speed = Some 3\<rparr>"
    by (simp add: raw_empty_id_def validate_DeviceCommand_def parse_mode_def)
  show ?thesis
    using post_commands_requires_device_id_present
        [where r = raw_no_id and now = 1 and s = empty_db]
      post_commands_requires_device_id_present
        [where r = raw_empty_id and now = 1 and
           c = "\<lparr>cmd_device_id = [], cmd_power = None, cmd_mode = None, cmd_fan_speed = Some 3\<rparr>"]
      n v
    by simp
qed


section \<open>The order of the queue\<close>

lemma lookup_cmd_doc_device: "lookup (i, cmd_doc c now) ''device_id'' = Some (VStr (cmd_device_id c))"
  by (simp add: lookup_def cmd_doc_fields)

lemma sort_val_cmd_doc: "sort_val ''created_at'' (i, cmd_doc c now) = Some now"
  by (simp add: sort_val_def lookup_def cmd_doc_fields split: option.splits)

lemma pending_push:
  "cmd_device_id c = dev \<Longrightarrow>
   pending dev (snd (push_command c now s)) = pending dev s @ [(next_oid s, cmd_doc c now)]"
  by (simp add: pending_def find_def push_command_colls matches_device lookup_cmd_doc_device)

lemma ids_ok_push:
  assumes "ids_ok s ''devicecommand''"
  shows "ids_ok (snd (push_command c now s)) ''devicecommand''"
proof -
  let ?c = "colls s ''devicecommand''"
  from assms have d: "distinct (map fst ?c)" and b: "\<forall>x\<in>set ?c. fst x < next_oid s"
    by (simp_all add: ids_ok_def list_all_iff)
  from b have "next_oid s \<notin> fst ` set ?c" by auto
  moreover from b have "\<forall>x\<in>set ?c. fst x < Suc (next_oid s)" by (simp add: less_Suc_eq)
  ultimately show ?thesis
    using d by (simp add: ids_ok_def list_all_iff push_command_colls push_command_next_oid)
qed

lemma next_command_empty: "pending dev s = [] \<Longrightarrow> next_command dev s = (None, s)"
  by (simp add: next_command_def next_finish_def next_find_def find_one_sort_def pending_def
      sort_asc_def)

lemma remove1_hd_filter:
  "filter P c = d # ds \<Longrightarrow> filter P (remove1 d c) = ds"
proof (induction c)
  case Nil
  then show ?case by simp
next
  case (Cons a c)
  have "d \<in> set (filter P (a # c))" unfolding Cons.prems by simp
  then have "P d" unfolding set_filter by blast
  show ?case
  proof (cases "P a")
    case True
    with Cons.prems show ?thesis by simp
  next
    case False
    then have "a \<noteq> d" using \<open>P d\<close> by blast
    with False Cons show ?thesis by simp
  qed
qed

lemma next_find_sorted:
  assumes "pending dev s = d # ds"
    and "sorted (map (sort_val ''created_at'') (d # ds))"
  shows "next_find dev s = Some d"
proof -
  have "sort_asc ''created_at'' (d # ds) = d # ds"
    using assms(2) unfolding sort_asc_def by (rule sort_key_id_if_sorted)
  then show ?thesis
    using assms(1) by (simp add: next_find_def find_one_sort_def pending_def)
qed

lemma next_finish_Some:
  assumes "distinct (map fst (colls s ''devicecommand''))" and "d \<in> set (colls s ''devicecommand'')"
  shows "next_finish (Some d) s =
           (Some (returned_doc d),
            s\<lparr>colls := (colls s)(''devicecommand'' := remove1 d (colls s ''devicecommand''))\<rparr>)"
  using delete_one_id [OF assms] by (simp add: next_finish_def)

lemma next_command_sorted:
  assumes "distinct (map fst (colls s ''devicecommand''))"
    and "pending dev s = d # ds"
    and "sorted (map (sort_val ''created_at'') (d # ds))"
  shows "next_command dev s =
           (Some (returned_doc d),
            s\<lparr>colls := (colls s)(''devicecommand'' := remove1 d (colls s ''devicecommand''))\<rparr>)"
proof -
  have "d \<in> set (pending dev s)" using assms(2) by simp
  then have "d \<in> set (colls s ''devicecommand'')" by (simp add: pending_def find_def)
  with assms show ?thesis by (simp add: next_command_def next_find_sorted next_finish_Some)
qed

lemma pending_remove1:
  "pending dev s = d # ds \<Longrightarrow>
   pending dev (s\<lparr>colls := (colls s)(''devicecommand'' := remove1 d (colls s ''devicecommand''))\<rparr>) = ds"
  by (simp add: pending_def find_def remove1_hd_filter)

lemma ids_ok_remove1:
  assumes "ids_ok s ''devicecommand''"
  shows "ids_ok (s\<lparr>colls := (colls s)(''devicecommand'' := remove1 d (colls s ''devicecommand''))\<rparr>)
           ''devicecommand''"
proof -
  let ?c = "colls s ''devicecommand''"
  from assms have dm: "distinct (map fst ?c)" and b: "\<forall>x\<in>set ?c. fst x < next_oid s"
    by (simp_all add: ids_ok_def list_all_iff)
  have "distinct (map fst (remove1 d ?c))"
  proof (cases "d \<in> set ?c")
    case True
    then show ?thesis using dm by (simp add: remove1_distinct_filter distinct_map_filter)
  next
    case False
    then show ?thesis using dm by (simp add: remove1_idem)
  qed
  moreover have "\<forall>x\<in>set (remove1 d ?c). fst x < next_oid s"
    using b by (meson notin_set_remove1)
  ultimately show ?thesis by (simp add: ids_ok_def list_all_iff)
qed

lemma body_of_None: "body_of None = None"
  by (simp add: body_of_def)

lemma body_of_returned: "body_of (Some (returned_doc d)) = Some (snd d)"
  by (simp add: body_of_def returned_doc_def)

lemma run_fifo_bodies:
  assumes "ids_ok s ''devicecommand''"
    and "set (enq_devices rs) \<subseteq> {dev}"
    and "sorted_wrt (<) (map (sort_val ''created_at'') (pending dev s) @ map Some (enq_times rs))"
  shows "map body_of (fst (run dev rs s)) = fifo rs (map snd (pending dev s))"
  using assms
proof (induction rs arbitrary: s)
  case Nil
  then show ?case by simp
next
  case (Cons r rs)
  show ?case
  proof (cases r)
    case (Enq c now)
    let ?s = "snd (push_command c now s)"
    have dev: "cmd_device_id c = dev" using Cons.prems(2) Enq by simp
    have p: "pending dev ?s = pending dev s @ [(next_oid s, cmd_doc c now)]"
      using dev by (rule pending_push)
    have "ids_ok ?s ''devicecommand''" using Cons.prems(1) by (rule ids_ok_push)
    moreover have "set (enq_devices rs) \<subseteq> {dev}" using Cons.prems(2) Enq by simp
    moreover have "sorted_wrt (<) (map (sort_val ''created_at'') (pending dev ?s) @ map Some (enq_times rs))"
      using Cons.prems(3) Enq by (simp add: p sort_val_cmd_doc)
    ultimately have "map body_of (fst (run dev rs ?s)) = fifo rs (map snd (pending dev ?s))"
      by (rule Cons.IH)
    then show ?thesis by (simp add: Enq p)
  next
    case Deq
    have devs: "set (enq_devices rs) \<subseteq> {dev}" using Cons.prems(2) Deq by simp
    show ?thesis
    proof (cases "pending dev s")
      case Nil
      have "sorted_wrt (<) (map (sort_val ''created_at'') (pending dev s) @ map Some (enq_times rs))"
        using Cons.prems(3) Deq by simp
      with Cons.prems(1) devs
      have "map body_of (fst (run dev rs s)) = fifo rs (map snd (pending dev s))"
        by (rule Cons.IH)
      then show ?thesis
        by (simp add: Deq Nil next_command_empty split_def body_of_None)
    next
      case (Cons d ds)
      let ?s = "s\<lparr>colls := (colls s)(''devicecommand'' := remove1 d (colls s ''devicecommand''))\<rparr>"
      have st: "sorted_wrt (<) (map (sort_val ''created_at'') (d # ds) @ map Some (enq_times rs))"
        using Cons.prems(3) Deq Cons by simp
      then have "sorted_wrt (<) (map (sort_val ''created_at'') (d # ds))"
        unfolding sorted_wrt_append by blast
      then have sd: "sorted (map (sort_val ''created_at'') (d # ds))"
        by (rule strict_sorted_imp_sorted)
      have dist: "distinct (map fst (colls s ''devicecommand''))"
        using Cons.prems(1) by (simp add: ids_ok_def)
      have nc: "next_command dev s = (Some (returned_doc d), ?s)"
        using dist Cons sd by (rule next_command_sorted)
      have p: "pending dev ?s = ds" using Cons by (rule pending_remove1)
      have "ids_ok ?s ''devicecommand''" using Cons.prems(1) by (rule ids_ok_remove1)
      moreover note devs
      moreover have "sorted_wrt (<) (map (sort_val ''created_at'') (pending dev ?s) @ map Some (enq_times rs))"
        using st by (simp add: p)
      ultimately have "map body_of (fst (run dev rs ?s)) = fifo rs (map snd (pending dev ?s))"
        by (rule Cons.IH)
      then show ?thesis
        by (simp add: Deq Cons nc p split_def body_of_returned)
    qed
  qed
qed

lemma next_command_cases:
  assumes "distinct (map fst (colls s ''devicecommand''))"
  shows "next_command dev s = (None, s) \<or>
         (\<exists>d\<in>set (colls s ''devicecommand'').
            lookup d ''device_id'' = Some (VStr dev) \<and>
            next_command dev s =
              (Some (returned_doc d),
               s\<lparr>colls := (colls s)(''devicecommand'' := remove1 d (colls s ''devicecommand''))\<rparr>))"
proof (cases "next_find dev s")
  case None
  then show ?thesis by (simp add: next_command_def next_finish_def)
next
  case (Some d)
  let ?c = "colls s ''devicecommand''"
  from Some have d: "d \<in> set ?c" and m: "matches [(''device_id'', Eq (VStr dev))] d"
    using find_one_sort_Some [of ?c _ "''created_at''" d] by (simp_all add: next_find_def)
  from m have "lookup d ''device_id'' = Some (VStr dev)" by (simp add: matches_device)
  moreover have "next_command dev s = (Some (returned_doc d), s\<lparr>colls := (colls s)(''devicecommand'' := remove1 d ?c)\<rparr>)"
    using next_finish_Some [OF assms d] Some by (simp add: next_command_def)
  ultimately show ?thesis using d by blast
qed

lemma ids_of_returned: "ids_of (Some (returned_doc d) # rs) = VOidStr (fst d) # ids_of rs"
  by (simp add: returned_doc_def)

lemma run_ids:
  assumes "ids_ok s ''devicecommand''"
  shows "distinct (ids_of (fst (run dev rs s))) \<and>
         set (ids_of (fst (run dev rs s))) \<subseteq>
           VOidStr ` (fst ` set (colls s ''devicecommand'') \<union> {n. next_oid s \<le> n})"
  using assms
proof (induction rs arbitrary: s)
  case Nil
  then show ?case by simp
next
  case (Cons r rs)
  show ?case
  proof (cases r)
    case (Enq c now)
    let ?s = "snd (push_command c now s)"
    have "ids_ok ?s ''devicecommand''" using Cons.prems by (rule ids_ok_push)
    then have ih: "distinct (ids_of (fst (run dev rs ?s))) \<and>
         set (ids_of (fst (run dev rs ?s))) \<subseteq>
           VOidStr ` (fst ` set (colls ?s ''devicecommand'') \<union> {n. next_oid ?s \<le> n})"
      by (rule Cons.IH)
    have "fst ` set (colls ?s ''devicecommand'') \<union> {n. next_oid ?s \<le> n} \<subseteq>
          fst ` set (colls s ''devicecommand'') \<union> {n. next_oid s \<le> n}"
      by (auto simp: push_command_colls push_command_next_oid)
    then have "VOidStr ` (fst ` set (colls ?s ''devicecommand'') \<union> {n. next_oid ?s \<le> n}) \<subseteq>
          VOidStr ` (fst ` set (colls s ''devicecommand'') \<union> {n. next_oid s \<le> n})"
      by (rule image_mono)
    with ih show ?thesis by (simp add: Enq) blast
  next
    case Deq
    have dist: "distinct (map fst (colls s ''devicecommand''))"
      and bound: "\<forall>x\<in>set (colls s ''devicecommand''). fst x < next_oid s"
      using Cons.prems by (simp_all add: ids_ok_def list_all_iff)
    from next_command_cases [OF dist, of dev]
    show ?thesis
    proof
      assume e: "next_command dev s = (None, s)"
      from Cons.IH [OF Cons.prems] show ?thesis by (simp add: Deq e split_def)
    next
      assume "\<exists>d\<in>set (colls s ''devicecommand'').
            lookup d ''device_id'' = Some (VStr dev) \<and>
            next_command dev s =
              (Some (returned_doc d),
               s\<lparr>colls := (colls s)(''devicecommand'' := remove1 d (colls s ''devicecommand''))\<rparr>)"
      then obtain d where d: "d \<in> set (colls s ''devicecommand'')"
        and nc: "next_command dev s =
              (Some (returned_doc d),
               s\<lparr>colls := (colls s)(''devicecommand'' := remove1 d (colls s ''devicecommand''))\<rparr>)"
        by blast
      let ?c = "colls s ''devicecommand''"
      let ?s = "s\<lparr>colls := (colls s)(''devicecommand'' := remove1 d ?c)\<rparr>"
      have "ids_ok ?s ''devicecommand''" using Cons.prems by (rule ids_ok_remove1)
      then have ih: "distinct (ids_of (fst (run dev rs ?s))) \<and>
         set (ids_of (fst (run dev rs ?s))) \<subseteq>
           VOidStr ` (fst ` set (colls ?s ''devicecommand'') \<union> {n. next_oid ?s \<le> n})"
        by (rule Cons.IH)
      have rem: "remove1 d ?c = filter (\<lambda>x. fst x \<noteq> fst d) ?c"
        using dist d by (rule remove1_distinct_filter)
      have notin: "fst d \<notin> fst ` set (remove1 d ?c) \<union> {n. next_oid s \<le> n}"
        using bound d by (auto simp: rem)
      have sub: "fst ` set (remove1 d ?c) \<union> {n. next_oid s \<le> n} \<subseteq>
                 fst ` set ?c \<union> {n. next_oid s \<le> n}"
        by (auto simp: rem)
      have run_eq: "fst (run dev (Deq # rs) s) = Some (returned_doc d) # fst (run dev rs ?s)"
        by (simp add: nc split_def)
      have new: "VOidStr (fst d) \<notin> set (ids_of (fst (run dev rs ?s)))"
        using ih notin by auto
      have old: "set (ids_of (fst (run dev rs ?s))) \<subseteq>
                 VOidStr ` (fst ` set ?c \<union> {n. next_oid s \<le> n})"
      proof -
        have "VOidStr ` (fst ` set (remove1 d ?c) \<union> {n. next_oid s \<le> n}) \<subseteq>
              VOidStr ` (fst ` set ?c \<union> {n. next_oid s \<le> n})"
          using sub by (rule image_mono)
        moreover have "set (ids_of (fst (run dev rs ?s))) \<subseteq>
              VOidStr ` (fst ` set (remove1 d ?c) \<union> {n. next_oid s \<le> n})"
          using ih by simp
        ultimately show ?thesis by (rule order_trans [rotated])
      qed
      have here: "VOidStr (fst d) \<in> VOidStr ` (fst ` set ?c \<union> {n. next_oid s \<le> n})"
        using d by blast
      show ?thesis
        unfolding Deq run_eq ids_of_returned
        using ih new old here by simp
    qed
  qed
qed

text \<open>
  Claim C1, as amended. Take a store whose documents have their own \<open>_id\<close>s and
  a sequential run of enqueues for one device and polls of that device, in any
  order, in which every enqueue reads the clock strictly later than the
  \<open>created_at\<close> of every command already queued for the device and than every
  earlier enqueue. Then the polls answer as a first-in first-out queue does:
  the commands come back in the order of their enqueues, a poll that finds the
  queue empty answers with the empty result and leaves the store alone, and no
  two polls return the same stored command.
\<close>

theorem polls_return_enqueue_order:
  assumes "ids_ok s ''devicecommand''"
    and "set (enq_devices rs) \<subseteq> {dev}"
    and "sorted_wrt (<) (map (sort_val ''created_at'') (pending dev s) @ map Some (enq_times rs))"
  shows "map body_of (fst (run dev rs s)) = fifo rs (map snd (pending dev s)) \<and>
         distinct (ids_of (fst (run dev rs s))) \<and>
         (pending dev s = [] \<longrightarrow> next_command dev s = (None, s))"
  using run_fifo_bodies [OF assms] run_ids [OF assms(1), of dev rs] next_command_empty [of dev s]
  by blast

lemma ids_ok_empty: "ids_ok empty_db name"
  by (simp add: ids_ok_def empty_db_def)

lemma pending_empty: "pending dev empty_db = []"
  by (simp add: pending_def find_def empty_db_def)

theorem polls_return_enqueue_order_witness:
  "ids_ok empty_db ''devicecommand'' \<and>
   set (enq_devices [Enq cmd_fan 1, Enq cmd_off 2, Deq, Deq, Deq]) \<subseteq> {''d1''} \<and>
   sorted_wrt (<) (map (sort_val ''created_at'') (pending ''d1'' empty_db) @
                   map Some (enq_times [Enq cmd_fan 1, Enq cmd_off 2, Deq, Deq, Deq])) \<and>
   map body_of (fst (run ''d1'' [Enq cmd_fan 1, Enq cmd_off 2, Deq, Deq, Deq] empty_db)) =
     [Some [(''device_id'', VStr ''d1''), (''fan_speed'', VInt 3), (''created_at'', VTime 1)],
      Some [(''device_id'', VStr ''d1''), (''power'', VBool False), (''created_at'', VTime 2)],
      None]"
proof -
  have a: "ids_ok empty_db ''devicecommand''" by (rule ids_ok_empty)
  have b: "set (enq_devices [Enq cmd_fan 1, Enq cmd_off 2, Deq, Deq, Deq]) \<subseteq> {''d1''}"
    by (simp add: cmd_fan_def cmd_off_def)
  have c: "sorted_wrt (<) (map (sort_val ''created_at'') (pending ''d1'' empty_db) @
                   map Some (enq_times [Enq cmd_fan 1, Enq cmd_off 2, Deq, Deq, Deq]))"
    by (simp add: pending_empty)
  show ?thesis
    using polls_return_enqueue_order [OF a b c] a b c
    by (simp add: pending_empty cmd_doc_fan cmd_doc_off)
qed

text \<open>
  Claim C1 as stated fails when the wall clock is set back between two enqueues:
  the command queued first gets \<open>created_at = 5\<close>, the second one 3, and the
  first poll returns the second command.
\<close>

lemma late_clock_commands:
  "colls (snd (push_command cmd_off 3 (snd (push_command cmd_fan 5 empty_db)))) ''devicecommand'' =
     [(0, [(''device_id'', VStr ''d1''), (''fan_speed'', VInt 3), (''created_at'', VTime 5)]),
      (1, [(''device_id'', VStr ''d1''), (''power'', VBool False), (''created_at'', VTime 3)])]"
  by (simp add: push_command_colls push_command_next_oid cmd_doc_fan cmd_doc_off empty_db_def)

theorem polls_clock_set_back_counterexample:
  "ids_ok empty_db ''devicecommand'' \<and>
   set (enq_devices [Enq cmd_fan 5, Enq cmd_off 3, Deq]) \<subseteq> {''d1''} \<and>
   map body_of (fst (run ''d1'' [Enq cmd_fan 5, Enq cmd_off 3, Deq] empty_db)) =
     [Some (cmd_doc cmd_off 3)] \<and>
   fifo [Enq cmd_fan 5, Enq cmd_off 3, Deq] [] = [Some (cmd_doc cmd_fan 5)] \<and>
   map body_of (fst (run ''d1'' [Enq cmd_fan 5, Enq cmd_off 3, Deq] empty_db)) \<noteq>
     fifo [Enq cmd_fan 5, Enq cmd_off 3, Deq] []"
proof -
  have f: "next_find ''d1'' (snd (push_command cmd_off 3 (snd (push_command cmd_fan 5 empty_db)))) =
     Some (1, [(''device_id'', VStr ''d1''), (''power'', VBool False), (''created_at'', VTime 3)])"
    by (simp add: next_find_def find_one_sort_def sort_asc_def find_def matches_def lookup_def
        sort_val_def late_clock_commands)
  have r: "map body_of (fst (run ''d1'' [Enq cmd_fan 5, Enq cmd_off 3, Deq] empty_db)) =
     [Some (cmd_doc cmd_off 3)]"
    by (simp add: next_command_def next_finish_def f split_def body_of_returned cmd_doc_off)
  have d: "set (enq_devices [Enq cmd_fan 5, Enq cmd_off 3, Deq]) \<subseteq> {''d1''}"
    by (simp add: cmd_fan_def cmd_off_def)
  have q: "fifo [Enq cmd_fan 5, Enq cmd_off 3, Deq] [] = [Some (cmd_doc cmd_fan 5)]"
    by simp
  have ne: "cmd_doc cmd_off 3 \<noteq> cmd_doc cmd_fan 5"
    by (simp add: cmd_doc_fan cmd_doc_off)
  show ?thesis
    unfolding r q using d ne ids_ok_empty by simp
qed

section \<open>Two polls of one device\<close>

lemma mset_remove1_add: "x \<in> set xs \<Longrightarrow> mset xs = add_mset x (mset (remove1 x xs))"
  by simp

lemma mset_returned_remove1:
  assumes "x \<in> set xs"
  shows "mset (map returned_doc xs) =
         add_mset (returned_doc x) (mset (map returned_doc (remove1 x xs)))"
proof -
  have "mset xs = add_mset x (mset (remove1 x xs))" using assms by (rule mset_remove1_add)
  then have "image_mset returned_doc (mset xs) =
             image_mset returned_doc (add_mset x (mset (remove1 x xs)))" by (rule arg_cong)
  then show ?thesis by (simp only: mset_map image_mset_add_mset)
qed

lemma returned_doc_inj: "returned_doc d = returned_doc e \<Longrightarrow> d = e"
  by (cases d, cases e) (simp add: returned_doc_def)

text \<open>Two polls, the second after the first: what is removed is what is returned, each once.\<close>

lemma seq_two_polls_once:
  assumes "distinct (map fst (colls s ''devicecommand''))"
  shows "case seq_two_polls dev s of
           ((ra, rb), s') \<Rightarrow>
             distinct (delivered ra @ delivered rb) \<and>
             mset (map returned_doc (colls s ''devicecommand'')) =
               mset (delivered ra @ delivered rb) +
               mset (map returned_doc (colls s' ''devicecommand''))"
proof -
  let ?c = "colls s ''devicecommand''"
  from next_command_cases [OF assms, of dev]
  show ?thesis
  proof
    assume "next_command dev s = (None, s)"
    then show ?thesis by (simp add: seq_two_polls_def delivered_def)
  next
    assume "\<exists>d\<in>set ?c. lookup d ''device_id'' = Some (VStr dev) \<and>
            next_command dev s =
              (Some (returned_doc d), s\<lparr>colls := (colls s)(''devicecommand'' := remove1 d ?c)\<rparr>)"
    then obtain d where d: "d \<in> set ?c"
      and nc: "next_command dev s =
              (Some (returned_doc d), s\<lparr>colls := (colls s)(''devicecommand'' := remove1 d ?c)\<rparr>)"
      by blast
    let ?s = "s\<lparr>colls := (colls s)(''devicecommand'' := remove1 d ?c)\<rparr>"
    have rem: "remove1 d ?c = filter (\<lambda>x. fst x \<noteq> fst d) ?c"
      using assms d by (rule remove1_distinct_filter)
    have dist: "distinct (map fst (colls ?s ''devicecommand''))"
      using assms by (simp add: rem distinct_map_filter)
    have m1: "mset (map returned_doc ?c) =
              add_mset (returned_doc d) (mset (map returned_doc (remove1 d ?c)))"
      using d by (rule mset_returned_remove1)
    from next_command_cases [OF dist, of dev]
    show ?thesis
    proof
      assume "next_command dev ?s = (None, ?s)"
      then show ?thesis using nc m1 by (simp add: seq_two_polls_def delivered_def)
    next
      assume "\<exists>e\<in>set (colls ?s ''devicecommand''). lookup e ''device_id'' = Some (VStr dev) \<and>
            next_command dev ?s =
              (Some (returned_doc e),
               ?s\<lparr>colls := (colls ?s)(''devicecommand'' := remove1 e (colls ?s ''devicecommand''))\<rparr>)"
      then obtain e where e: "e \<in> set (remove1 d ?c)"
        and nc2: "next_command dev ?s =
              (Some (returned_doc e),
               ?s\<lparr>colls := (colls ?s)(''devicecommand'' := remove1 e (colls ?s ''devicecommand''))\<rparr>)"
        by auto
      have "fst e \<noteq> fst d" using e by (simp add: rem)
      then have ne: "returned_doc d \<noteq> returned_doc e" by (auto dest: returned_doc_inj)
      have m2: "mset (map returned_doc (remove1 d ?c)) =
              add_mset (returned_doc e) (mset (map returned_doc (remove1 e (remove1 d ?c))))"
        using e by (rule mset_returned_remove1)
      show ?thesis
        using nc nc2 ne m1 m2 by (simp add: seq_two_polls_def delivered_def)
    qed
  qed
qed

lemma seq_two_polls_two_queued:
  "fst (seq_two_polls ''d1'' two_queued) =
     (Some [(''_id'', VOidStr 0), (''device_id'', VStr ''d1''), (''fan_speed'', VInt 3),
            (''created_at'', VTime 1)],
      Some [(''_id'', VOidStr 1), (''device_id'', VStr ''d1''), (''power'', VBool False),
            (''created_at'', VTime 2)])"
proof -
  have a: "next_command ''d1'' two_queued =
     (Some [(''_id'', VOidStr 0), (''device_id'', VStr ''d1''), (''fan_speed'', VInt 3),
            (''created_at'', VTime 1)],
      two_queued\<lparr>colls := (colls two_queued)(''devicecommand'' :=
        [(1, [(''device_id'', VStr ''d1''), (''power'', VBool False), (''created_at'', VTime 2)])])\<rparr>)"
    by (simp add: next_command_def next_finish_def next_find_two_queued returned_doc_def
        delete_one_def find_one_def find_def matches_id two_queued_commands)
  show ?thesis
    unfolding seq_two_polls_def a
    by (simp add: next_command_def next_finish_def next_find_def find_one_sort_def sort_asc_def
        find_def matches_def lookup_def returned_doc_def)
qed

text \<open>
  Two polls whose lookups both run before either delete: both find the same
  document, the first delete removes it and the second finds nothing to remove.
\<close>

lemma race_two_polls_result:
  assumes "distinct (map fst (colls s ''devicecommand''))"
  shows "case race_two_polls dev s of
           ((ra, rb), s') \<Rightarrow>
             ra = rb \<and> (ra = None) = (pending dev s = []) \<and>
             mset (map returned_doc (colls s ''devicecommand'')) =
               mset (delivered ra) + mset (map returned_doc (colls s' ''devicecommand''))"
proof (cases "next_find dev s")
  case None
  then have "pending dev s = []"
    by (simp add: next_find_def pending_def find_one_sort_None)
  with None show ?thesis
    by (simp add: race_two_polls_def Let_def next_finish_def delivered_def)
next
  case (Some d)
  let ?c = "colls s ''devicecommand''"
  let ?s = "s\<lparr>colls := (colls s)(''devicecommand'' := remove1 d ?c)\<rparr>"
  from Some have d: "d \<in> set ?c"
    using find_one_sort_Some [of ?c _ "''created_at''" d] by (simp add: next_find_def)
  from Some have p: "pending dev s \<noteq> []"
    using find_one_sort_None [of ?c "[(''device_id'', Eq (VStr dev))]" "''created_at''"]
    by (simp add: next_find_def pending_def)
  have first: "next_finish (Some d) s = (Some (returned_doc d), ?s)"
    using assms d by (rule next_finish_Some)
  have rem: "remove1 d ?c = filter (\<lambda>x. fst x \<noteq> fst d) ?c"
    using assms d by (rule remove1_distinct_filter)
  have "fst d \<notin> fst ` set (remove1 d ?c)" by (auto simp: rem)
  then have gone: "delete_one (remove1 d ?c) [(''_id'', Eq (VOid (fst d)))] = remove1 d ?c"
    by (rule delete_one_id_absent)
  have second: "fst (next_finish (Some d) ?s) = Some (returned_doc d)"
    and after: "colls (snd (next_finish (Some d) ?s)) ''devicecommand'' = remove1 d ?c"
    by (simp_all add: next_finish_def gone)
  have m: "mset (map returned_doc ?c) =
           add_mset (returned_doc d) (mset (map returned_doc (remove1 d ?c)))"
    using d by (rule mset_returned_remove1)
  show ?thesis
    using Some first second after m p
    by (simp add: race_two_polls_def Let_def split_def delivered_def)
qed

lemma race_two_polls_swapped_same: "race_two_polls_swapped dev s = race_two_polls dev s"
  by (simp add: race_two_polls_swapped_def race_two_polls_def Let_def split_def next_finish_def
      split: option.splits)

text \<open>
  Claim C2, as amended. In every store whose queued commands have their own
  \<open>_id\<close>s: when two polls of a device race, so that both look up before either
  deletes, nothing is lost, as the command removed from the store is the one
  returned; but it is returned to both callers, whenever the queue is not empty.
  The order of the two deletes makes no difference to that.
  When the second poll starts after the first has finished, the two polls return
  different commands, and the commands removed are exactly the ones returned.
\<close>

theorem two_polls_no_loss_one_delivery_in_sequence:
  assumes "distinct (map fst (colls s ''devicecommand''))"
  shows "(case race_two_polls dev s of
            ((ra, rb), s') \<Rightarrow>
              ra = rb \<and> (ra = None) = (pending dev s = []) \<and>
              mset (map returned_doc (colls s ''devicecommand'')) =
                mset (delivered ra) + mset (map returned_doc (colls s' ''devicecommand''))) \<and>
         (case seq_two_polls dev s of
            ((ra, rb), s') \<Rightarrow>
              distinct (delivered ra @ delivered rb) \<and>
              mset (map returned_doc (colls s ''devicecommand'')) =
                mset (delivered ra @ delivered rb) +
                mset (map returned_doc (colls s' ''devicecommand''))) \<and>
         race_two_polls_swapped dev s = race_two_polls dev s"
proof (intro conjI)
  show "case race_two_polls dev s of
          ((ra, rb), s') \<Rightarrow>
            ra = rb \<and> (ra = None) = (pending dev s = []) \<and>
            mset (map returned_doc (colls s ''devicecommand'')) =
              mset (delivered ra) + mset (map returned_doc (colls s' ''devicecommand''))"
    using assms by (rule race_two_polls_result)
  show "case seq_two_polls dev s of
          ((ra, rb), s') \<Rightarrow>
            distinct (delivered ra @ delivered rb) \<and>
            mset (map returned_doc (colls s ''devicecommand'')) =
              mset (delivered ra @ delivered rb) +
              mset (map returned_doc (colls s' ''devicecommand''))"
    using assms by (rule seq_two_polls_once)
  show "race_two_polls_swapped dev s = race_two_polls dev s"
    by (rule race_two_polls_swapped_same)
qed

theorem two_polls_no_loss_one_delivery_in_sequence_witness:
  "distinct (map fst (colls two_queued ''devicecommand'')) \<and>
   fst (seq_two_polls ''d1'' two_queued) =
     (Some [(''_id'', VOidStr 0), (''device_id'', VStr ''d1''), (''fan_speed'', VInt 3),
            (''created_at'', VTime 1)],
      Some [(''_id'', VOidStr 1), (''device_id'', VStr ''d1''), (''power'', VBool False),
            (''created_at'', VTime 2)]) \<and>
   mset (map returned_doc (colls two_queued ''devicecommand'')) =
     mset (delivered (fst (fst (seq_two_polls ''d1'' two_queued))) @
           delivered (snd (fst (seq_two_polls ''d1'' two_queued)))) +
     mset (map returned_doc (colls (snd (seq_two_polls ''d1'' two_queued)) ''devicecommand'')) \<and>
   mset (map returned_doc (colls two_queued ''devicecommand'')) =
     mset (delivered (fst (fst (race_two_polls ''d1'' two_queued)))) +
     mset (map returned_doc (colls (snd (race_two_polls ''d1'' two_queued)) ''devicecommand''))"
proof -
  have h: "distinct (map fst (colls two_queued ''devicecommand''))"
    by (simp add: two_queued_commands)
  note both = two_polls_no_loss_one_delivery_in_sequence [OF h, of "''d1''"]
  from both [THEN conjunct2, THEN conjunct1] have q: "mset (map returned_doc (colls two_queued ''devicecommand'')) =
     mset (delivered (fst (fst (seq_two_polls ''d1'' two_queued))) @
           delivered (snd (fst (seq_two_polls ''d1'' two_queued)))) +
     mset (map returned_doc (colls (snd (seq_two_polls ''d1'' two_queued)) ''devicecommand''))"
    by (simp add: split_def)
  from both [THEN conjunct1] have r: "mset (map returned_doc (colls two_queued ''devicecommand'')) =
     mset (delivered (fst (fst (race_two_polls ''d1'' two_queued)))) +
     mset (map returned_doc (colls (snd (race_two_polls ''d1'' two_queued)) ''devicecommand''))"
    by (simp add: split_def)
  show ?thesis
  proof (intro conjI)
    show "distinct (map fst (colls two_queued ''devicecommand''))" by (rule h)
  qed (rule seq_two_polls_two_queued q r)+
qed

text \<open>
  Claim C2 as stated fails: the lookup and the delete are two store calls with
  nothing to hold them together. When both polls look up before either deletes,
  both callers receive the command with \<open>_id\<close> 0.
\<close>

theorem race_two_polls_double_delivery_counterexample:
  "fst (race_two_polls ''d1'' two_queued) =
     (Some [(''_id'', VOidStr 0), (''device_id'', VStr ''d1''), (''fan_speed'', VInt 3),
            (''created_at'', VTime 1)],
      Some [(''_id'', VOidStr 0), (''device_id'', VStr ''d1''), (''fan_speed'', VInt 3),
            (''created_at'', VTime 1)]) \<and>
   \<not> distinct (delivered (fst (fst (race_two_polls ''d1'' two_queued))) @
               delivered (snd (fst (race_two_polls ''d1'' two_queued))))"
proof -
  have "fst (race_two_polls ''d1'' two_queued) =
     (Some [(''_id'', VOidStr 0), (''device_id'', VStr ''d1''), (''fan_speed'', VInt 3),
            (''created_at'', VTime 1)],
      Some [(''_id'', VOidStr 0), (''device_id'', VStr ''d1''), (''fan_speed'', VInt 3),
            (''created_at'', VTime 1)])"
    by (simp add: race_two_polls_def Let_def next_find_two_queued next_finish_def returned_doc_def)
  then show ?thesis by (simp add: delivered_def)
qed

end
